theory Spec2Isabelle
  imports Complex_Main
begin

section \<open>Helper functions of the NPSAT mesh code (\<^verbatim>\<open>myheaders/helper_functions.h\<close>)\<close>

text \<open>
  The header holds three groups of functions that are modelled here:
  the structured node adjacency lookup \<^verbatim>\<open>get_connected_indices\<close>, the geometry
  primitives \<^verbatim>\<open>triangle_area\<close> and \<^verbatim>\<open>recharge_weight\<close>, and the retrying inverse
  mapping \<^verbatim>\<open>try_mapping\<close>.

  Conventions of the embedding.
  \<^item> A template parameter \<^verbatim>\<open>int dim\<close> is an ordinary argument of type \<open>int\<close>.
  \<^item> A C++ \<^verbatim>\<open>int\<close> that is only compared with small constants, or counted from 0
    to 21, is an \<open>int\<close>; no overflow can occur on these paths.
  \<^item> A \<^verbatim>\<open>double\<close> is a value of the type \<open>double\<close> below: an IEEE 754 binary64
    number, with every operation rounded to nearest, ties to even, as the source
    order of the operations has it.
  \<^item> A point of the mesh library is the list of its coordinates; its dimension is
    the length of the list.
\<close>

subsection \<open>Structured adjacency: \<^verbatim>\<open>get_connected_indices\<close>\<close>

text \<open>
  The function fills a vector with \<^verbatim>\<open>push_back\<close> in a chain of \<^verbatim>\<open>if / else if\<close>
  and returns it; a chain without a matching branch returns the empty vector.
  The local flag \<^verbatim>\<open>return_all\<close> is initialised to \<^verbatim>\<open>false\<close> and never assigned;
  both of its branches are kept as the source has them.
\<close>

definition get_connected_indices :: "int \<Rightarrow> int \<Rightarrow> int list" where
  "get_connected_indices dimn ii =
     (let return_all = False in
      if dimn = 2 then
        (if return_all then
           (if ii = 0 then [1, 2]
            else if ii = 1 then [0, 3]
            else if ii = 2 then [0, 3]
            else if ii = 3 then [1, 2]
            else [])
         else
           (if ii = 0 then [2]
            else if ii = 1 then [3]
            else if ii = 2 then [0]
            else if ii = 3 then [1]
            else []))
      else if dimn = 3 then
        (if return_all then
           (if ii = 0 then [1, 2, 4]
            else if ii = 1 then [0, 3, 5]
            else if ii = 2 then [0, 3, 6]
            else if ii = 3 then [1, 2, 7]
            else if ii = 4 then [0, 5, 6]
            else if ii = 5 then [1, 4, 7]
            else if ii = 6 then [2, 4, 7]
            else if ii = 7 then [3, 5, 6]
            else [])
         else
           (if ii = 0 then [4]
            else if ii = 1 then [5]
            else if ii = 2 then [6]
            else if ii = 3 then [7]
            else if ii = 4 then [0]
            else if ii = 5 then [1]
            else if ii = 6 then [2]
            else if ii = 7 then [3]
            else []))
      else [])"

text \<open>
  The inputs the lookup is meant for: a dimension of 2 or 3 and a local node
  index between 0 and \<open>2 ^ dim - 1\<close>.
\<close>

definition valid_node :: "int \<Rightarrow> int \<Rightarrow> bool" where
  "valid_node dimn ii \<longleftrightarrow> (dimn = 2 \<or> dimn = 3) \<and> 0 \<le> ii \<and> ii \<le> 2 ^ nat dimn - 1"

text \<open>
  The lookup as the specification words it, for comparison with the code: the
  same table behind a guard that fails with \<open>InvalidIndex\<close> on every other input.
\<close>

datatype adjacency_error = InvalidIndex

definition guarded_connected_indices :: "int \<Rightarrow> int \<Rightarrow> adjacency_error + int list" where
  "guarded_connected_indices dimn ii =
     (if valid_node dimn ii then Inr (get_connected_indices dimn ii) else Inl InvalidIndex)"

subsection \<open>Double precision numbers\<close>

text \<open>
  The values of a \<^verbatim>\<open>double\<close>: the finite numbers (\<open>Fin x\<close>, where \<open>Fin 0\<close> is the
  positive zero), the negative zero, the two infinities and NaN. Signs and
  payloads of NaNs are not distinguished.
\<close>

datatype double = Fin real | NegZero | PInf | NInf | NaN

text \<open>Rounding a real number to the nearest integer, a tie to the even one.\<close>

definition rne :: "real \<Rightarrow> int" where
  "rne t =
     (let f = \<lfloor>t\<rfloor>; d = t - of_int f
      in if d < 1 / 2 then f else if 1 / 2 < d then f + 1 else if even f then f else f + 1)"

text \<open>
  Rounding a positive real number \<open>a\<close> to binary64. The numbers from \<open>2^e\<close> up to
  \<open>2^(e+1)\<close> are represented with 53 significant bits, that is in steps of
  \<open>2^(e-52)\<close>; below \<open>2^(-1022)\<close> the step stays \<open>2^(-1074)\<close> (subnormal numbers).
  \<open>rmag a\<close> is the multiple of the step nearest to \<open>a\<close>. A result of \<open>2^1024\<close> or
  more is an overflow, to an infinity; a result of 0 is an underflow, to a zero
  of the sign of the number rounded.
\<close>

definition ulp_of :: "real \<Rightarrow> real" where
  "ulp_of a = 2 powi (max \<lfloor>log 2 a\<rfloor> (- 1022) - 52)"

definition rmag :: "real \<Rightarrow> real" where
  "rmag a = of_int (rne (a / ulp_of a)) * ulp_of a"

definition zero_of :: "bool \<Rightarrow> double" where
  "zero_of negative = (if negative then NegZero else Fin 0)"

definition inf_of :: "bool \<Rightarrow> double" where
  "inf_of negative = (if negative then NInf else PInf)"

definition round64 :: "real \<Rightarrow> double" where
  "round64 x =
     (if x = 0 then Fin 0
      else if 2 ^ 1024 \<le> rmag \<bar>x\<bar> then inf_of (x < 0)
      else if rmag \<bar>x\<bar> = 0 then zero_of (x < 0)
      else Fin (if x < 0 then - rmag \<bar>x\<bar> else rmag \<bar>x\<bar>))"

fun val :: "double \<Rightarrow> real" where
  "val (Fin x) = x"
| "val NegZero = 0"
| "val PInf = 0"
| "val NInf = 0"
| "val NaN = 0"

fun sign_bit :: "double \<Rightarrow> bool" where
  "sign_bit (Fin x) = (x < 0)"
| "sign_bit NegZero = True"
| "sign_bit PInf = False"
| "sign_bit NInf = True"
| "sign_bit NaN = False"

definition is_zero :: "double \<Rightarrow> bool" where
  "is_zero a \<longleftrightarrow> a = Fin 0 \<or> a = NegZero"

definition is_inf :: "double \<Rightarrow> bool" where
  "is_inf a \<longleftrightarrow> a = PInf \<or> a = NInf"

definition is_finite :: "double \<Rightarrow> bool" where
  "is_finite a \<longleftrightarrow> a \<noteq> NaN \<and> \<not> is_inf a"

text \<open>
  The operations of the source: unary minus, \<^verbatim>\<open>std::abs\<close>, \<open>+\<close>, \<open>-\<close>, \<open>*\<close>, \<open>/\<close>
  and \<^verbatim>\<open>sqrt\<close>, each the exact result rounded once, with the IEEE rules for
  zeros, infinities and NaN. No two operations are fused.
\<close>

fun fneg :: "double \<Rightarrow> double" where
  "fneg (Fin x) = (if x = 0 then NegZero else Fin (- x))"
| "fneg NegZero = Fin 0"
| "fneg PInf = NInf"
| "fneg NInf = PInf"
| "fneg NaN = NaN"

fun fabs :: "double \<Rightarrow> double" where
  "fabs (Fin x) = Fin \<bar>x\<bar>"
| "fabs NegZero = Fin 0"
| "fabs PInf = PInf"
| "fabs NInf = PInf"
| "fabs NaN = NaN"

definition fadd :: "double \<Rightarrow> double \<Rightarrow> double" where
  "fadd a b =
     (if a = NaN \<or> b = NaN then NaN
      else if is_inf a then (if is_inf b \<and> a \<noteq> b then NaN else a)
      else if is_inf b then b
      else if a = NegZero \<and> b = NegZero then NegZero
      else round64 (val a + val b))"

definition fsub :: "double \<Rightarrow> double \<Rightarrow> double" where
  "fsub a b = fadd a (fneg b)"

definition fmul :: "double \<Rightarrow> double \<Rightarrow> double" where
  "fmul a b =
     (if a = NaN \<or> b = NaN then NaN
      else if is_zero a \<and> is_inf b \<or> is_inf a \<and> is_zero b then NaN
      else if is_inf a \<or> is_inf b then inf_of (sign_bit a \<noteq> sign_bit b)
      else if is_zero a \<or> is_zero b then zero_of (sign_bit a \<noteq> sign_bit b)
      else round64 (val a * val b))"

definition fdiv :: "double \<Rightarrow> double \<Rightarrow> double" where
  "fdiv a b =
     (if a = NaN \<or> b = NaN then NaN
      else if is_inf a \<and> is_inf b \<or> is_zero a \<and> is_zero b then NaN
      else if is_inf a \<or> is_zero b then inf_of (sign_bit a \<noteq> sign_bit b)
      else if is_inf b \<or> is_zero a then zero_of (sign_bit a \<noteq> sign_bit b)
      else round64 (val a / val b))"

fun fsqrt :: "double \<Rightarrow> double" where
  "fsqrt (Fin x) = (if x < 0 then NaN else round64 (sqrt x))"
| "fsqrt NegZero = NegZero"
| "fsqrt PInf = PInf"
| "fsqrt NInf = NaN"
| "fsqrt NaN = NaN"

text \<open>
  \<open>opp x y\<close>: \<open>y\<close> is \<open>x\<close> with the opposite sign, where the sign of a zero does not
  count.
\<close>

definition opp :: "double \<Rightarrow> double \<Rightarrow> bool" where
  "opp x y \<longleftrightarrow>
     x = NaN \<and> y = NaN \<or> x = PInf \<and> y = NInf \<or> x = NInf \<and> y = PInf \<or>
     is_zero x \<and> is_zero y \<or> (\<exists>v. v \<noteq> 0 \<and> x = Fin v \<and> y = Fin (- v))"

subsection \<open>Points\<close>

text \<open>
  \<^verbatim>\<open>dealii::Point<dim>\<close> holds \<open>dim\<close> coordinates, read with \<^verbatim>\<open>operator[]\<close>; the
  functions of the header make no check of their own before a read. A read at
  an index below \<open>dim\<close> is the coordinate. A read at \<open>dim\<close> or beyond is stopped
  only by the index assertion of the mesh library, which exists in its debug build
  alone; without it the read returns what the memory after the coordinates of
  the point holds. That content is the argument \<open>past\<close> of the functions below.
\<close>

type_synonym point = "double list"

definition coord :: "(point \<Rightarrow> nat \<Rightarrow> double) \<Rightarrow> point \<Rightarrow> nat \<Rightarrow> double" where
  "coord past A i = (if i < length A then A ! i else past A i)"

text \<open>A memory that holds zeros after every point.\<close>

definition zero_memory :: "point \<Rightarrow> nat \<Rightarrow> double" where
  "zero_memory A i = Fin 0"

subsection \<open>Geometry primitives: \<^verbatim>\<open>triangle_area\<close>\<close>

text \<open>
  The two branches of \<^verbatim>\<open>triangle_area\<close>, operation by operation in the order of
  the source: a sum \<open>a + b + c\<close> is \<open>(a + b) + c\<close>, and \<^verbatim>\<open>pow(e, 2)\<close> is the rounded
  square of \<open>e\<close>. The projected branch reads coordinates 0 and 1 of each point, the
  other branch coordinates 0, 1 and 2. The function body never mentions \<open>dim\<close>.
\<close>

definition pow2 :: "double \<Rightarrow> double" where
  "pow2 e = fmul e e"

definition projected_area :: "(point \<Rightarrow> nat \<Rightarrow> double) \<Rightarrow> point \<Rightarrow> point \<Rightarrow> point \<Rightarrow> double" where
  "projected_area past A B C =
     fabs (fmul (Fin 0.5)
       (fadd (fadd (fmul (coord past A 0) (fsub (coord past B 1) (coord past C 1)))
                   (fmul (coord past B 0) (fsub (coord past C 1) (coord past A 1))))
             (fmul (coord past C 0) (fsub (coord past A 1) (coord past B 1)))))"

definition spatial_area :: "(point \<Rightarrow> nat \<Rightarrow> double) \<Rightarrow> point \<Rightarrow> point \<Rightarrow> point \<Rightarrow> double" where
  "spatial_area past A B C =
     (let x1 = coord past A 0; y1 = coord past A 1; z1 = coord past A 2;
          x2 = coord past B 0; y2 = coord past B 1; z2 = coord past B 2;
          x3 = coord past C 0; y3 = coord past C 1; z3 = coord past C 2;
          area =
            fadd (fadd
              (pow2 (fsub (fadd (fadd (fsub (fsub (fmul x1 y2) (fmul x2 y1)) (fmul x1 y3))
                                      (fmul x3 y1)) (fmul x2 y3)) (fmul x3 y2)))
              (pow2 (fsub (fadd (fadd (fsub (fsub (fmul x1 z2) (fmul x2 z1)) (fmul x1 z3))
                                      (fmul x3 z1)) (fmul x2 z3)) (fmul x3 z2))))
              (pow2 (fsub (fadd (fadd (fsub (fsub (fmul y1 z2) (fmul y2 z1)) (fmul y1 z3))
                                      (fmul y3 z1)) (fmul y2 z3)) (fmul y3 z2)))
      in fmul (Fin 0.5) (fsqrt area))"

definition triangle_area ::
  "(point \<Rightarrow> nat \<Rightarrow> double) \<Rightarrow> point \<Rightarrow> point \<Rightarrow> point \<Rightarrow> bool \<Rightarrow> double" where
  "triangle_area past A B C project =
     (if project then projected_area past A B C else spatial_area past A B C)"

subsection \<open>Face weight: \<^verbatim>\<open>recharge_weight\<close>\<close>

text \<open>
  \<^verbatim>\<open>Point::distance\<close> of the mesh library: the square root of the sum, taken from
  0 in the order of the coordinates, of the squared differences.
\<close>

definition distance :: "point \<Rightarrow> point \<Rightarrow> double" where
  "distance v w =
     fsqrt (fold (\<lambda>(a, b) sum. fadd sum (fmul (fsub a b) (fsub a b))) (zip v w) (Fin 0))"

text \<open>
  The third argument stands for \<^verbatim>\<open>cell->face(face)\<close>: the list of the vertices of
  that face, in the order of the mesh library, so that \<^verbatim>\<open>vertex(k)\<close> is its
  \<open>k\<close>-th element. A face of the mesh library has two vertices in dimension 2
  and four in dimension 3; asking a list for a vertex it does not have is the
  fault \<open>IndexRange\<close> of the model.
\<close>

datatype fault = IndexRange

definition then_res :: "fault + 'a \<Rightarrow> ('a \<Rightarrow> fault + 'b) \<Rightarrow> fault + 'b" where
  "then_res m f = (case m of Inl e \<Rightarrow> Inl e | Inr x \<Rightarrow> f x)"

definition vertex :: "point list \<Rightarrow> nat \<Rightarrow> fault + point" where
  "vertex vs k = (if k < length vs then Inr (vs ! k) else Inl IndexRange)"

definition recharge_weight ::
  "(point \<Rightarrow> nat \<Rightarrow> double) \<Rightarrow> int \<Rightarrow> point list \<Rightarrow> fault + double" where
  "recharge_weight past dimn vs =
     (let weight = Fin 1 in
      if dimn = 2 then
        then_res (vertex vs 0) (\<lambda>v1.
        then_res (vertex vs 1) (\<lambda>v2.
          (let actual_length = distance v1 v2;
               projected_length = fabs (fsub (coord past v2 0) (coord past v1 0))
           in Inr (fdiv projected_length actual_length))))
      else if dimn = 3 then
        then_res (vertex vs 0) (\<lambda>v1.
        then_res (vertex vs 1) (\<lambda>v2.
        then_res (vertex vs 2) (\<lambda>v3.
        then_res (vertex vs 3) (\<lambda>v4.
          (let A_real = fadd (triangle_area past v1 v2 v4 False)
                             (triangle_area past v1 v4 v3 False);
               A_proj = fadd (triangle_area past v1 v2 v4 True)
                             (triangle_area past v1 v4 v3 True)
           in Inr (fdiv A_proj A_real))))))
      else Inr weight)"

subsection \<open>Retrying inverse mapping: \<^verbatim>\<open>try_mapping\<close>\<close>

text \<open>
  The surroundings of \<^verbatim>\<open>try_mapping\<close>.
  \<^item> \<^verbatim>\<open>mapping.transform_real_to_unit_cell(cell, q)\<close> of the mesh library either
    returns the reference coordinates of \<open>q\<close> or throws. For the cell and the
    mapping of one call of \<^verbatim>\<open>try_mapping\<close> it is a function \<open>transform\<close> from
    points to \<open>point option\<close>, with \<open>None\<close> for a throw, which \<^verbatim>\<open>catch(...)\<close>
    catches whatever it is.
  \<^item> \<^verbatim>\<open>rand()\<close> is the generator of the C library, a global sequence of integers
    from 0 to \<^verbatim>\<open>RAND_MAX\<close>. The sequence is the argument \<open>rs\<close>, the number of
    calls made so far is threaded through the loop, and \<^verbatim>\<open>RAND_MAX\<close>, a constant of
    the platform of type \<^verbatim>\<open>int\<close>, is the argument \<open>rand_max\<close>. The conversion of an
    \<^verbatim>\<open>int\<close> to \<^verbatim>\<open>double\<close> is exact.
\<close>

definition unit_draw :: "int \<Rightarrow> int \<Rightarrow> double" where
  "unit_draw rand_max r = fdiv (Fin (of_int r)) (Fin (of_int rand_max))"

text \<open>
  The offset that the handler adds to a coordinate, from the value \<open>r\<close> that
  \<^verbatim>\<open>rand()\<close> returned: \<^verbatim>\<open>0.0001*(-1.0 + 2.0*(double(r)/double(RAND_MAX)))\<close>. The
  literal \<^verbatim>\<open>0.0001\<close> is the double nearest to \<open>1/10000\<close>.
\<close>

definition offset :: "int \<Rightarrow> int \<Rightarrow> double" where
  "offset rand_max r =
     fmul (round64 0.0001) (fadd (Fin (- 1)) (fmul (Fin 2) (unit_draw rand_max r)))"

text \<open>
  The inner \<^verbatim>\<open>for\<close> loop of the handler: it assigns the coordinates of \<^verbatim>\<open>p_try\<close>
  one by one, each with a new call of \<^verbatim>\<open>rand\<close>.
\<close>

definition perturb :: "int \<Rightarrow> (nat \<Rightarrow> int) \<Rightarrow> point \<Rightarrow> point \<times> nat \<Rightarrow> point \<times> nat" where
  "perturb rand_max rs p st =
     fold (\<lambda>idim (p_try, k). (p_try[idim := fadd (p ! idim) (offset rand_max (rs k))], Suc k))
          [0..<length p] st"

text \<open>
  The variables of the \<^verbatim>\<open>while\<close> loop. \<open>p_unit\<close> is the reference parameter of the
  function, \<open>rand_calls\<close> the number of calls of \<^verbatim>\<open>rand\<close> made so far. \<open>queried\<close> is
  not a variable of the source: it records the points the inversion was called
  on, oldest first, so that statements about the attempts can be made.
\<close>

record try_state =
  p_try :: point
  p_unit :: point
  count_try :: int
  rand_calls :: nat
  queried :: "point list"

text \<open>
  One round of the loop per call: the \<^verbatim>\<open>try\<close> block, and on a throw the handler
  with its \<^verbatim>\<open>break\<close>. The first component of the result is \<^verbatim>\<open>mapping_done\<close>.
\<close>

function try_loop ::
  "(point \<Rightarrow> point option) \<Rightarrow> int \<Rightarrow> (nat \<Rightarrow> int) \<Rightarrow> point \<Rightarrow> try_state \<Rightarrow> bool \<times> try_state" where
  "try_loop transform rand_max rs p s =
     (case transform (p_try s) of
        Some u \<Rightarrow> (True, s\<lparr>p_unit := u, queried := queried s @ [p_try s]\<rparr>)
      | None \<Rightarrow>
          (let s' = s\<lparr>p_try := fst (perturb rand_max rs p (p_try s, rand_calls s)),
                      rand_calls := snd (perturb rand_max rs p (p_try s, rand_calls s)),
                      count_try := count_try s + 1,
                      queried := queried s @ [p_try s]\<rparr>
           in if count_try s' > 20 then (False, s')
              else try_loop transform rand_max rs p s'))"
  by pat_completeness auto
termination
  by (relation "measure (\<lambda>(transform, rand_max, rs, p, s). nat (21 - count_try s))") auto

declare try_loop.simps [simp del]

text \<open>
  \<^verbatim>\<open>try_mapping\<close> itself: \<open>k0\<close> calls of \<^verbatim>\<open>rand\<close> were made before, and \<open>p_unit0\<close> is
  what the reference parameter holds at entry.
\<close>

definition try_mapping ::
  "(point \<Rightarrow> point option) \<Rightarrow> int \<Rightarrow> (nat \<Rightarrow> int) \<Rightarrow> nat \<Rightarrow> point \<Rightarrow> point \<Rightarrow> bool \<times> try_state" where
  "try_mapping transform rand_max rs k0 p p_unit0 =
     try_loop transform rand_max rs p
       \<lparr>p_try = p, p_unit = p_unit0, count_try = 0, rand_calls = k0, queried = []\<rparr>"

text \<open>
  For the statements below: the point that the handler leaves in \<^verbatim>\<open>p_try\<close> when
  \<open>k\<close> calls of \<^verbatim>\<open>rand\<close> were made before it, the state after a failed round, and
  the list of the points of the first try and \<open>m\<close> retries.
\<close>

definition perturbed :: "int \<Rightarrow> (nat \<Rightarrow> int) \<Rightarrow> point \<Rightarrow> nat \<Rightarrow> point" where
  "perturbed rand_max rs p k =
     map (\<lambda>i. fadd (p ! i) (offset rand_max (rs (k + i)))) [0..<length p]"

definition next_try :: "int \<Rightarrow> (nat \<Rightarrow> int) \<Rightarrow> point \<Rightarrow> try_state \<Rightarrow> try_state" where
  "next_try rand_max rs p s =
     s\<lparr>p_try := perturbed rand_max rs p (rand_calls s),
       rand_calls := rand_calls s + length p,
       count_try := count_try s + 1,
       queried := queried s @ [p_try s]\<rparr>"

definition trace_from :: "int \<Rightarrow> (nat \<Rightarrow> int) \<Rightarrow> point \<Rightarrow> point \<Rightarrow> nat \<Rightarrow> nat \<Rightarrow> point list" where
  "trace_from rand_max rs p q k m =
     q # map (\<lambda>j. perturbed rand_max rs p (k + j * length p)) [0..<m]"

text \<open>
  Surroundings to run the function in: an inversion that fails on every point,
  one that fails on a single point and returns every other point as it is, a
  generator that returns \<^verbatim>\<open>RAND_MAX = 32767\<close> at every call, and one that returns 0
  at every third call and \<^verbatim>\<open>RAND_MAX = 32767\<close> at the others.
\<close>

definition never_inverts :: "point \<Rightarrow> point option" where
  "never_inverts q = None"

definition fails_only_at :: "point \<Rightarrow> point \<Rightarrow> point option" where
  "fails_only_at p0 q = (if q = p0 then None else Some q)"

definition rand_always_max :: "nat \<Rightarrow> int" where
  "rand_always_max k = 32767"

definition rand_zero_or_max :: "nat \<Rightarrow> int" where
  "rand_zero_or_max k = (if k mod 3 = 0 then 0 else 32767)"

subsection \<open>Facts about the adjacency lookup\<close>

lemma valid_node_cases:
  "valid_node dimn ii \<longleftrightarrow>
     dimn = 2 \<and> (ii = 0 \<or> ii = 1 \<or> ii = 2 \<or> ii = 3) \<or>
     dimn = 3 \<and> (ii = 0 \<or> ii = 1 \<or> ii = 2 \<or> ii = 3 \<or> ii = 4 \<or> ii = 5 \<or> ii = 6 \<or> ii = 7)"
  unfolding valid_node_def by auto

lemma get_connected_indices_valid:
  assumes "valid_node dimn ii"
  shows "get_connected_indices dimn ii = [(ii + 2 ^ (nat dimn - 1)) mod 2 ^ nat dimn]"
  using assms unfolding valid_node_cases get_connected_indices_def
  by (elim disjE conjE) simp_all

lemma get_connected_indices_invalid:
  assumes "\<not> valid_node dimn ii"
  shows "get_connected_indices dimn ii = []"
  using assms unfolding valid_node_cases get_connected_indices_def
  by auto

lemma neighbour_valid:
  assumes "valid_node dimn ii"
  shows "valid_node dimn ((ii + 2 ^ (nat dimn - 1)) mod 2 ^ nat dimn)"
  using assms unfolding valid_node_cases
  by (elim disjE conjE) simp_all

lemma neighbour_twice:
  assumes "valid_node dimn ii"
  shows "((ii + 2 ^ (nat dimn - 1)) mod 2 ^ nat dimn + 2 ^ (nat dimn - 1)) mod 2 ^ nat dimn = ii"
  using assms unfolding valid_node_cases
  by (elim disjE conjE) simp_all

text \<open>
  Claim C8. In the mode the function runs in (one neighbour per node), the lookup
  is an involution on the valid inputs: for a dimension of 2 or 3 and a node index
  \<open>i\<close> between 0 and \<open>2 ^ dim - 1\<close> the lookup yields one index \<open>j\<close>, and whenever
  it yields \<open>j\<close> for \<open>i\<close> it yields \<open>i\<close> for \<open>j\<close>.
\<close>

theorem get_connected_indices_involution:
  assumes "valid_node dimn i"
  shows "(\<exists>j. get_connected_indices dimn i = [j]) \<and>
         (\<forall>j. get_connected_indices dimn i = [j] \<longrightarrow> get_connected_indices dimn j = [i])"
proof -
  let ?j = "(i + 2 ^ (nat dimn - 1)) mod 2 ^ nat dimn"
  have i: "get_connected_indices dimn i = [?j]"
    by (rule get_connected_indices_valid [OF assms])
  have "get_connected_indices dimn ?j = [i]"
    using get_connected_indices_valid [OF neighbour_valid [OF assms]] neighbour_twice [OF assms]
    by simp
  with i show ?thesis by simp
qed

theorem get_connected_indices_involution_witness:
  "valid_node 3 5 \<and> get_connected_indices 3 5 = [1] \<and> get_connected_indices 3 1 = [5]"
proof -
  have v: "valid_node 3 5" by (simp add: valid_node_def)
  have one: "get_connected_indices 3 5 = [1]" by (simp add: get_connected_indices_def)
  from get_connected_indices_involution [OF v] one
  have "get_connected_indices 3 1 = [5]" by blast
  with v one show ?thesis by simp
qed

text \<open>
  Claim C9, as the code has it. The claim asks for an \<open>InvalidIndex\<close> failure on
  every node index outside \<open>0 .. 2 ^ dim - 1\<close> and every dimension other than 2 and 3.
  The function has no failure path: on exactly the inputs where the guarded lookup
  fails with \<open>InvalidIndex\<close>, it returns the empty vector.
\<close>

theorem get_connected_indices_no_error:
  assumes "\<not> valid_node dimn ii"
  shows "get_connected_indices dimn ii = [] \<and>
         guarded_connected_indices dimn ii = Inl InvalidIndex"
  using assms by (simp add: guarded_connected_indices_def get_connected_indices_invalid)

theorem get_connected_indices_no_error_witness:
  "\<not> valid_node 2 7 \<and> get_connected_indices 2 7 = [] \<and>
   guarded_connected_indices 2 7 = Inl InvalidIndex"
proof -
  have v: "\<not> valid_node 2 7" by (simp add: valid_node_def)
  from get_connected_indices_no_error [OF v] v show ?thesis by simp
qed

text \<open>
  The claim as stated fails: node index 4 does not exist in dimension 2 and
  dimension 5 is not supported, the guarded lookup fails on both, and the code
  returns an (empty) vector.
\<close>

theorem get_connected_indices_invalid_index_counterexample:
  "guarded_connected_indices 2 4 = Inl InvalidIndex \<and> get_connected_indices 2 4 = [] \<and>
   guarded_connected_indices 5 0 = Inl InvalidIndex \<and> get_connected_indices 5 0 = []"
  by (simp add: guarded_connected_indices_def valid_node_def get_connected_indices_def)

text \<open>
  Claim C10. For a dimension of 2 or 3 and a node index between 0 and
  \<open>2 ^ dim - 1\<close> the result is a list of exactly one index, the neighbour along the
  last axis, \<open>(ii + 2 ^ (dim - 1)) mod 2 ^ dim\<close>; for every other pair of dimension
  and index the result is empty. So no call returns the two or three neighbours
  of the full adjacency: the flag that selects it is the constant \<open>False\<close>.
\<close>

theorem get_connected_indices_single_neighbour:
  "get_connected_indices dimn ii =
     (if valid_node dimn ii then [(ii + 2 ^ (nat dimn - 1)) mod 2 ^ nat dimn] else [])"
  by (simp add: get_connected_indices_valid get_connected_indices_invalid)

theorem get_connected_indices_single_neighbour_witness:
  "valid_node 2 1 \<and> get_connected_indices 2 1 = [3] \<and>
   \<not> valid_node 2 (- 1) \<and> get_connected_indices 2 (- 1) = [] \<and>
   \<not> valid_node 4 0 \<and> get_connected_indices 4 0 = []"
proof -
  have v: "valid_node 2 1" "\<not> valid_node 2 (- 1)" "\<not> valid_node 4 0"
    by (simp_all add: valid_node_def)
  show ?thesis
    using v get_connected_indices_single_neighbour [of 2 1]
      get_connected_indices_single_neighbour [of 2 "- 1"]
      get_connected_indices_single_neighbour [of 4 0]
    by simp
qed

subsection \<open>Facts about double precision numbers\<close>

lemma rne_of_int [simp]: "rne (of_int k) = k"
  by (simp add: rne_def)

lemma rne_bounds: "\<bar>of_int (rne t) - t\<bar> \<le> 1 / 2"
  unfolding rne_def Let_def by (auto simp: abs_le_iff)

lemma rne_le: "t \<le> of_int N \<Longrightarrow> rne t \<le> N"
  unfolding rne_def Let_def
  by (auto simp: floor_le_iff)

lemma rne_ge: "of_int N \<le> t \<Longrightarrow> N \<le> rne t"
  unfolding rne_def Let_def
  by (auto simp: le_floor_iff) linarith+

lemma floor_log2_eq:
  assumes "2 powi e \<le> a" "a < 2 powi (e + 1)"
  shows "\<lfloor>log 2 a\<rfloor> = e"
proof -
  have "(0 :: real) < 2 powi e" by simp
  with assms(1) have a: "0 < a" by linarith
  have "2 powr (real_of_int e) \<le> a \<and> a < 2 powr (real_of_int e + 1)"
    using assms powr_real_of_int' [of 2 e] powr_real_of_int' [of 2 "e + 1"]
    by (simp add: add.commute)
  then show ?thesis
    using floor_log_eq_powr_iff [of a 2 e] a by simp
qed

lemma ulp_of_eq:
  assumes "2 powi e \<le> a" "a < 2 powi (e + 1)"
  shows "ulp_of a = 2 powi (max e (- 1022) - 52)"
  unfolding ulp_of_def floor_log2_eq [OF assms] ..

lemma ulp_of_pos: "0 < ulp_of a"
  by (simp add: ulp_of_def)

lemma rmag_nonneg: "0 \<le> a \<Longrightarrow> 0 \<le> rmag a"
  unfolding rmag_def using rne_ge [of 0 "a / ulp_of a"] ulp_of_pos [of a]
  by (simp add: less_imp_le)

text \<open>Integers: exact below \<open>2^53\<close>, rounded to a multiple of \<open>2^s\<close> above.\<close>

lemma rne_int_div:
  assumes "0 < d"
  shows "rne (of_int N / of_int d) =
           (let q = N div d; r = N mod d
            in if 2 * r < d then q else if d < 2 * r then q + 1 else if even q then q else q + 1)"
proof -
  have f: "\<lfloor>real_of_int N / real_of_int d\<rfloor> = N div d"
    by (simp add: floor_divide_of_int_eq)
  have "real_of_int N = real_of_int (N div d) * real_of_int d + real_of_int (N mod d)"
    by (metis div_mult_mod_eq of_int_add of_int_mult)
  then have d: "real_of_int N / real_of_int d - real_of_int (N div d) =
      real_of_int (N mod d) / real_of_int d"
    using assms by (simp add: field_simps)
  have 1: "real_of_int (N mod d) / real_of_int d < 1 / 2 \<longleftrightarrow> 2 * (N mod d) < d"
    using assms by (simp add: field_simps) linarith
  have 2: "1 / 2 < real_of_int (N mod d) / real_of_int d \<longleftrightarrow> d < 2 * (N mod d)"
    using assms by (simp add: field_simps) linarith
  show ?thesis
    unfolding rne_def Let_def f d 1 2 ..
qed

lemma int_div_less:
  fixes N d k :: int
  assumes "0 < d" "N < k * d"
  shows "N div d < k"
proof -
  have "N div d * d + N mod d = N" by simp
  moreover have "0 \<le> N mod d" using assms(1) by simp
  ultimately have "N div d * d < k * d" using assms(2) by linarith
  then show ?thesis using assms(1) by (simp add: mult_less_cancel_right)
qed

lemma round64_nat_bits:
  fixes N :: int
  assumes "2 ^ (52 + s) \<le> N" "N < 2 ^ (53 + s)" "s \<le> 900"
  shows "round64 (of_int N) =
           (let q = N div 2 ^ s; r = N mod 2 ^ s;
                n = (if 2 * r < 2 ^ s then q else if 2 ^ s < 2 * r then q + 1
                     else if even q then q else q + 1)
            in Fin (of_int (n * 2 ^ s)))"
    and "round64 (- of_int N) =
           (let q = N div 2 ^ s; r = N mod 2 ^ s;
                n = (if 2 * r < 2 ^ s then q else if 2 ^ s < 2 * r then q + 1
                     else if even q then q else q + 1)
            in Fin (- of_int (n * 2 ^ s)))"
proof -
  let ?a = "real_of_int N"
  let ?e = "int (52 + s)"
  have lo: "2 powi ?e \<le> ?a"
    using assms(1) by (metis of_int_le_iff of_int_numeral of_int_power power_int_of_nat)
  have hi: "?a < 2 powi (?e + 1)"
  proof -
    have "?a < 2 ^ (53 + s)"
      using assms(2) by (metis of_int_less_iff of_int_numeral of_int_power)
    moreover have "?e + 1 = int (53 + s)" by simp
    ultimately show ?thesis by (metis power_int_of_nat)
  qed
  have u: "ulp_of ?a = 2 ^ s"
  proof -
    have "max ?e (- 1022) - 52 = int s" by simp
    then show ?thesis unfolding ulp_of_eq [OF lo hi] by (metis power_int_of_nat)
  qed
  define n where "n = (let q = N div 2 ^ s; r = N mod 2 ^ s
      in if 2 * r < 2 ^ s then q else if 2 ^ s < 2 * r then q + 1
                     else if even q then q else q + 1)"
  have r: "rne (?a / 2 ^ s) = n"
    using rne_int_div [of "2 ^ s" N] unfolding n_def by simp
  have m: "rmag ?a = of_int (n * 2 ^ s)"
    unfolding rmag_def u r by simp
  have "(0 :: int) < 2 ^ (52 + s)" by simp
  with assms(1) have pos: "0 < N" by linarith
  have "N div 2 ^ s \<le> n" unfolding n_def Let_def by simp
  moreover have "2 ^ 52 \<le> N div 2 ^ s"
  proof -
    have "(2 :: int) ^ 52 * 2 ^ s \<le> N" using assms(1) by (simp add: power_add)
    then show ?thesis by (simp add: zdiv_mono1 [of "2 ^ 52 * 2 ^ s" N "2 ^ s", simplified])
  qed
  ultimately have nlo: "2 ^ 52 \<le> n" by simp
  moreover have "(0 :: int) < 2 ^ 52" by simp
  ultimately have n0: "0 < n" by linarith
  have "n \<le> N div 2 ^ s + 1" unfolding n_def Let_def by simp
  moreover have "N div 2 ^ s < 2 ^ 53"
  proof -
    have "N < 2 ^ 53 * 2 ^ s" using assms(2) by (simp add: power_add)
    then show ?thesis by (intro int_div_less) simp_all
  qed
  ultimately have nhi: "n \<le> 2 ^ 53" by simp
  have "n * 2 ^ s \<le> 2 ^ 53 * 2 ^ s" using nhi by simp
  also have "\<dots> = (2 :: int) ^ (53 + s)" by (simp add: power_add)
  also have "\<dots> \<le> 2 ^ 953" using assms(3) by (intro power_increasing) simp_all
  also have "\<dots> < 2 ^ 1024" by simp
  finally have lt: "n * 2 ^ s < 2 ^ 1024" .
  have "real_of_int (n * 2 ^ s) < real_of_int (2 ^ 1024)"
    using lt by (simp only: of_int_less_iff)
  then have small: "\<not> 2 ^ 1024 \<le> rmag ?a" unfolding m by simp
  have "0 < n * 2 ^ s" using n0 by simp
  then have nz: "rmag ?a \<noteq> 0" unfolding m by (simp only: of_int_eq_0_iff)
  have a0: "?a \<noteq> 0" "\<not> ?a < 0" "\<bar>?a\<bar> = ?a" using pos by simp_all
  have p: "round64 ?a = Fin (of_int (n * 2 ^ s))"
    unfolding round64_def using a0 small nz by (simp add: m)
  have b0: "- ?a \<noteq> 0" "- ?a < 0" "\<bar>- ?a\<bar> = ?a" using pos by simp_all
  have q: "round64 (- ?a) = Fin (- of_int (n * 2 ^ s))"
    unfolding round64_def using pos small nz by (simp add: m)
  show "round64 (of_int N) =
           (let q = N div 2 ^ s; r = N mod 2 ^ s;
                n = (if 2 * r < 2 ^ s then q else if 2 ^ s < 2 * r then q + 1
                     else if even q then q else q + 1)
            in Fin (of_int (n * 2 ^ s)))"
    using p unfolding n_def Let_def .
  show "round64 (- of_int N) =
           (let q = N div 2 ^ s; r = N mod 2 ^ s;
                n = (if 2 * r < 2 ^ s then q else if 2 ^ s < 2 * r then q + 1
                     else if even q then q else q + 1)
            in Fin (- of_int (n * 2 ^ s)))"
    using q unfolding n_def Let_def .
qed

lemma floor_log2_bounds:
  assumes "0 < a"
  shows "2 powi \<lfloor>log 2 a\<rfloor> \<le> a \<and> a < 2 powi (\<lfloor>log 2 a\<rfloor> + 1)"
proof -
  have "2 powr real_of_int \<lfloor>log 2 a\<rfloor> \<le> a \<and> a < 2 powr (real_of_int \<lfloor>log 2 a\<rfloor> + 1)"
    using floor_log_eq_powr_iff [of a 2 "\<lfloor>log 2 a\<rfloor>"] assms by simp
  then show ?thesis
    using powr_real_of_int' [of 2 "\<lfloor>log 2 a\<rfloor>"] powr_real_of_int' [of 2 "\<lfloor>log 2 a\<rfloor> + 1"]
    by (simp add: add.commute)
qed

lemma two_powi_mono: "e \<le> m \<Longrightarrow> (2 :: real) powi e \<le> 2 powi m"
  by (rule power_int_increasing) simp_all

lemma two_powi_less_D:
  assumes "(2 :: real) powi e < 2 powi m"
  shows "e < m"
proof (rule ccontr)
  assume "\<not> e < m"
  then have "(2 :: real) powi m \<le> 2 powi e" by (intro two_powi_mono) simp
  with assms show False by simp
qed

lemma round64_dyadic:
  fixes k j :: int
  assumes k: "k \<noteq> 0" "\<bar>k\<bar> < 2 ^ 53" and j: "- 1074 \<le> j" "j \<le> 970"
  shows "round64 (of_int k * 2 powi j) = Fin (of_int k * 2 powi j)"
proof -
  let ?x = "real_of_int k * 2 powi j"
  let ?a = "real_of_int \<bar>k\<bar> * 2 powi j"
  have p2: "0 < (2 :: real) powi i" for i by simp
  have ax: "\<bar>?x\<bar> = ?a" by (simp add: abs_mult)
  have a0: "0 < ?a" using k(1) by simp
  define e where "e = \<lfloor>log 2 ?a\<rfloor>"
  define E where "E = max e (- 1022)"
  have b: "2 powi e \<le> ?a" using floor_log2_bounds [OF a0] by (simp add: e_def)
  have "real_of_int \<bar>k\<bar> < 2 ^ 53"
    using k(2) by (metis of_int_less_iff of_int_numeral of_int_power)
  then have "?a < 2 ^ 53 * 2 powi j" by (simp add: p2)
  also have "\<dots> = 2 powi (53 + j)"
    by (simp add: power_int_add)
  finally have "2 powi e < (2 :: real) powi (53 + j)" using b by simp
  then have "e < 53 + j" by (rule two_powi_less_D)
  then have Ej: "E - 52 \<le> j" using j(1) by (simp add: E_def)
  define t where "t = nat (j - (E - 52))"
  have u: "ulp_of ?a = 2 powi (E - 52)" by (simp add: ulp_of_def e_def E_def)
  have pj: "2 powi j = (2 :: real) powi (E - 52) * 2 ^ t"
  proof -
    have "j = (E - 52) + int t" using Ej by (simp add: t_def)
    then have "(2 :: real) powi j = 2 powi ((E - 52) + int t)" by simp
    also have "\<dots> = 2 powi (E - 52) * 2 powi (int t)" by (simp add: power_int_add)
    finally show ?thesis by simp
  qed
  have "?a / ulp_of ?a = ?a / 2 powi (E - 52)"
    by (simp only: u)
  also have "\<dots> = real_of_int \<bar>k\<bar> * (2 powi (E - 52) * 2 ^ t) / 2 powi (E - 52)"
    by (simp only: pj)
  also have "\<dots> = of_int (\<bar>k\<bar> * 2 ^ t)"
    by simp
  finally have q: "?a / ulp_of ?a = of_int (\<bar>k\<bar> * 2 ^ t)" .
  have "rmag ?a = of_int (rne (?a / ulp_of ?a)) * ulp_of ?a"
    by (simp only: rmag_def)
  also have "\<dots> = of_int (rne (of_int (\<bar>k\<bar> * 2 ^ t))) * ulp_of ?a"
    by (simp only: q)
  also have "\<dots> = of_int (\<bar>k\<bar> * 2 ^ t) * 2 powi (E - 52)"
    by (simp only: rne_of_int u)
  also have "\<dots> = of_int \<bar>k\<bar> * (2 powi (E - 52) * 2 ^ t)"
    by simp
  also have "\<dots> = ?a"
    unfolding pj ..
  finally have m: "rmag ?a = ?a" .
  have "?a < 2 ^ 53 * 2 powi j" using \<open>real_of_int \<bar>k\<bar> < 2 ^ 53\<close> by (simp add: p2)
  also have "\<dots> \<le> 2 ^ 53 * 2 powi 970"
    using two_powi_mono [OF j(2)] by simp
  also have "\<dots> < 2 ^ 1024" by simp
  finally have small: "\<not> 2 ^ 1024 \<le> rmag ?a" unfolding m by simp
  have x0: "?x \<noteq> 0" using k(1) by simp
  have nneg: "\<not> (2 :: real) powi j < 0"
    using p2 [of j] by linarith
  have neg: "?x < 0 \<longleftrightarrow> k < 0"
    by (simp add: mult_less_0_iff nneg)
  have nz: "rmag ?a \<noteq> 0" unfolding m using a0 by linarith
  have "round64 ?x = Fin (if ?x < 0 then - rmag ?a else rmag ?a)"
    by (simp only: round64_def ax x0 small nz if_False)
  also have "(if ?x < 0 then - rmag ?a else rmag ?a) = ?x"
    unfolding m neg by (cases "k < 0") simp_all
  finally show ?thesis .
qed

lemma round64_int:
  fixes k :: int
  assumes "\<bar>k\<bar> < 2 ^ 53"
  shows "round64 (of_int k) = Fin (of_int k)"
proof (cases "k = 0")
  case True
  then show ?thesis by (simp add: round64_def)
next
  case False
  from round64_dyadic [OF False assms, of 0] show ?thesis by simp
qed

lemma round64_numeral [simp]:
  "numeral w < (2 :: int) ^ 53 \<Longrightarrow> round64 (numeral w) = Fin (numeral w)"
  "numeral w < (2 :: int) ^ 53 \<Longrightarrow> round64 (- numeral w) = Fin (- numeral w)"
  using round64_int [of "numeral w"] round64_int [of "- numeral w"] by simp_all

lemma round64_0 [simp]: "round64 0 = Fin 0"
  by (simp add: round64_def)

lemma round64_1 [simp]: "round64 1 = Fin 1" "round64 (- 1) = Fin (- 1)"
  using round64_int [of 1] round64_int [of "- 1"] by simp_all

text \<open>Changing the sign of the operands changes the sign of the result.\<close>

lemma round64_opp: "opp (round64 x) (round64 (- x))"
proof (cases "x = 0")
  case True
  then show ?thesis by (simp add: opp_def is_zero_def)
next
  case False
  then show ?thesis
    by (auto simp: round64_def opp_def is_zero_def inf_of_def zero_of_def)
qed

lemma opp_sym: "opp x y \<Longrightarrow> opp y x"
  by (auto simp: opp_def)

lemma opp_val: "opp x y \<Longrightarrow> val y = - val x"
  by (auto simp: opp_def is_zero_def)

lemma opp_fneg: "opp x (fneg x)"
  by (cases x) (auto simp: opp_def is_zero_def)

lemma fadd_commute: "fadd a b = fadd b a"
  by (auto simp: fadd_def is_inf_def add.commute)

lemma opp_fadd:
  assumes "opp x x'" "opp y y'"
  shows "opp (fadd x y) (fadd x' y')"
proof -
  have r: "opp (round64 (val x + val y)) (round64 (val x' + val y'))"
    using round64_opp [of "val x + val y"] opp_val [OF assms(1)] opp_val [OF assms(2)]
    by simp
  have z: "opp NegZero NegZero" by (simp add: opp_def is_zero_def)
  consider "x = NaN \<or> y = NaN" | "x \<noteq> NaN" "y \<noteq> NaN" "is_inf x \<or> is_inf y"
    | "x \<noteq> NaN" "y \<noteq> NaN" "\<not> is_inf x" "\<not> is_inf y"
    by blast
  then show ?thesis
  proof cases
    case 1
    with assms show ?thesis by (auto simp: opp_def fadd_def is_zero_def)
  next
    case 2
    with assms show ?thesis
      by (auto simp: opp_def fadd_def is_zero_def is_inf_def)
  next
    case 3
    with assms have 4: "x' \<noteq> NaN" "y' \<noteq> NaN" "\<not> is_inf x'" "\<not> is_inf y'"
      by (auto simp: opp_def is_zero_def is_inf_def)
    show ?thesis
    proof (cases "x = NegZero \<and> y = NegZero")
      case True
      with assms have "is_zero x'" "is_zero y'" by (auto simp: opp_def is_zero_def)
      then have "is_zero (fadd x' y')"
        by (auto simp: fadd_def is_zero_def is_inf_def)
      with True show ?thesis by (simp add: fadd_def opp_def is_zero_def is_inf_def)
    next
      case False
      show ?thesis
      proof (cases "x' = NegZero \<and> y' = NegZero")
        case True
        with assms have "is_zero x" "is_zero y" by (auto simp: opp_def is_zero_def)
        then have "is_zero (fadd x y)"
          by (auto simp: fadd_def is_zero_def is_inf_def)
        with True show ?thesis by (simp add: fadd_def opp_def is_zero_def is_inf_def)
      next
        case F2: False
        from False F2 3 4 r show ?thesis by (auto simp: fadd_def)
      qed
    qed
  qed
qed

lemma opp_fsub: "opp (fsub a b) (fsub b a)"
proof -
  have "opp (fadd a (fneg b)) (fadd (fneg a) b)"
  proof (rule opp_fadd)
    show "opp a (fneg a)" by (rule opp_fneg)
    show "opp (fneg b) b" by (rule opp_sym) (rule opp_fneg)
  qed
  then show ?thesis unfolding fsub_def by (simp add: fadd_commute)
qed

lemma opp_fmul:
  assumes "opp x y"
  shows "opp (fmul c x) (fmul c y)"
proof -
  have r: "opp (round64 (val c * val x)) (round64 (val c * val y))"
    using round64_opp [of "val c * val x"] opp_val [OF assms] by simp
  from assms consider "x = NaN" "y = NaN" | "is_inf x" "is_inf y" "sign_bit y = (\<not> sign_bit x)"
    | "is_zero x" "is_zero y" | v where "v \<noteq> 0" "x = Fin v" "y = Fin (- v)"
    by (auto simp: opp_def is_inf_def)
  then show ?thesis
  proof cases
    case 1
    then show ?thesis by (simp add: fmul_def opp_def)
  next
    case 2
    then show ?thesis
      by (cases c) (auto simp: fmul_def opp_def is_inf_def is_zero_def inf_of_def)
  next
    case 3
    then show ?thesis
      by (cases c) (auto simp: fmul_def opp_def is_inf_def is_zero_def zero_of_def inf_of_def)
  next
    case 4
    then have n: "x \<noteq> NaN" "y \<noteq> NaN" "\<not> is_inf x" "\<not> is_inf y" "\<not> is_zero x" "\<not> is_zero y"
      by (simp_all add: is_inf_def is_zero_def)
    show ?thesis
    proof (cases "c = NaN \<or> is_inf c \<or> is_zero c")
      case True
      with 4 show ?thesis
        by (cases c) (auto simp: fmul_def opp_def is_inf_def is_zero_def zero_of_def inf_of_def)
    next
      case False
      with n r show ?thesis by (simp add: fmul_def)
    qed
  qed
qed

lemma opp_fabs: "opp x y \<Longrightarrow> fabs x = fabs y"
  by (auto simp: opp_def is_zero_def)

text \<open>Rounding to the nearest double: a criterion for the result, and bounds on it.\<close>

lemma two_powi_Suc: "(2 :: real) powi (i + 1) = 2 powi i * 2"
  by (simp add: power_int_add)

lemma rne_near:
  assumes "\<bar>t - of_int n\<bar> < 1 / 2"
  shows "rne t = n"
proof (cases "of_int n \<le> t")
  case True
  with assms have "\<lfloor>t\<rfloor> = n" by (intro floor_unique) (simp_all add: abs_less_iff)
  with assms True show ?thesis by (simp add: rne_def abs_less_iff)
next
  case False
  with assms have f: "\<lfloor>t\<rfloor> = n - 1"
    by (intro floor_unique) (simp_all add: abs_less_iff)
  with assms False show ?thesis by (simp add: rne_def abs_less_iff)
qed

lemma round64_near:
  assumes "2 powi e \<le> a" "a < 2 powi (e + 1)" "- 1022 \<le> e"
    and "\<bar>a / 2 powi (e - 52) - of_int n\<bar> < 1 / 2"
    and "of_int n * 2 powi (e - 52) < (2 :: real) ^ 1024"
  shows "round64 a = Fin (of_int n * 2 powi (e - 52))"
    and "round64 (- a) = Fin (- (of_int n * 2 powi (e - 52)))"
proof -
  have p: "0 < (2 :: real) powi i" for i by simp
  have a0: "0 < a" using assms(1) p [of e] by linarith
  have u: "ulp_of a = 2 powi (e - 52)"
    using ulp_of_eq [OF assms(1,2)] assms(3) by (simp add: max_def)
  have m: "rmag a = of_int n * 2 powi (e - 52)"
    unfolding rmag_def u rne_near [OF assms(4)] ..
  have "2 powi e / 2 powi (e - 52) \<le> a / 2 powi (e - 52)"
    using assms(1) by (simp add: divide_right_mono)
  moreover have "(2 :: real) powi e / 2 powi (e - 52) = 2 ^ 52"
    by (simp add: power_int_diff)
  ultimately have "2 ^ 52 \<le> a / 2 powi (e - 52)" by simp
  moreover have "(1 :: real) \<le> 2 ^ 52" by simp
  ultimately have "1 \<le> a / 2 powi (e - 52)" by (rule order_trans [rotated])
  with assms(4) have "0 < real_of_int n" by linarith
  then have "0 < rmag a" unfolding m using p [of "e - 52"] by simp
  then have nz: "real_of_int n * 2 powi (e - 52) \<noteq> 0" unfolding m by linarith
  have small: "\<not> 2 ^ 1024 \<le> real_of_int n * 2 powi (e - 52)" using assms(5) by simp
  have x: "a \<noteq> 0" "\<not> a < 0" "\<bar>a\<bar> = a" using a0 by simp_all
  show "round64 a = Fin (of_int n * 2 powi (e - 52))"
    by (simp only: round64_def x small nz if_False m)
  have y: "- a \<noteq> 0" "- a < 0" "\<bar>- a\<bar> = a" using a0 by simp_all
  show "round64 (- a) = Fin (- (of_int n * 2 powi (e - 52)))"
    by (simp only: round64_def y small nz if_False if_True m)
qed

lemma rmag_error:
  assumes "0 < a"
  shows "\<bar>rmag a - a\<bar> \<le> ulp_of a / 2"
proof -
  have u: "0 < ulp_of a" by (rule ulp_of_pos)
  have "rmag a - a = (of_int (rne (a / ulp_of a)) - a / ulp_of a) * ulp_of a"
    using u by (simp add: rmag_def field_simps)
  then have "\<bar>rmag a - a\<bar> = \<bar>of_int (rne (a / ulp_of a)) - a / ulp_of a\<bar> * ulp_of a"
    using u by (simp add: abs_mult)
  also have "\<dots> \<le> 1 / 2 * ulp_of a"
    using rne_bounds [of "a / ulp_of a"] u by (intro mult_right_mono) simp_all
  finally show ?thesis by simp
qed

lemma ulp_of_le:
  assumes "0 < a" "a < 2 powi (k + 1)" "- 1022 \<le> k"
  shows "ulp_of a \<le> 2 powi (k - 52)"
proof -
  have "2 powi \<lfloor>log 2 a\<rfloor> < (2 :: real) powi (k + 1)"
    using floor_log2_bounds [OF assms(1)] assms(2) by simp
  then have "\<lfloor>log 2 a\<rfloor> < k + 1" by (rule two_powi_less_D)
  with assms(3) have "max \<lfloor>log 2 a\<rfloor> (- 1022) - 52 \<le> k - 52" by simp
  then show ?thesis unfolding ulp_of_def by (rule two_powi_mono)
qed

lemma round64_val:
  assumes "x \<noteq> 0" "rmag \<bar>x\<bar> < 2 ^ 1024"
  shows "is_finite (round64 x)"
    and "val (round64 x) = (if x < 0 then - rmag \<bar>x\<bar> else rmag \<bar>x\<bar>)"
  using assms
  by (auto simp: round64_def is_finite_def is_inf_def zero_of_def inf_of_def)

lemma round64_close:
  assumes "\<bar>x\<bar> < 2 powi (k + 1)" "- 1022 \<le> k" "k \<le> 1022"
  shows "is_finite (round64 x)" and "\<bar>val (round64 x) - x\<bar> \<le> 2 powi (k - 53)"
proof -
  have fin0: "is_finite (Fin 0)" by (simp add: is_finite_def is_inf_def)
  have "is_finite (round64 x) \<and> \<bar>val (round64 x) - x\<bar> \<le> 2 powi (k - 53)"
  proof (cases "x = 0")
    case True
    then show ?thesis using fin0 by simp
  next
    case False
    then have a0: "0 < \<bar>x\<bar>" by simp
    have "ulp_of \<bar>x\<bar> / 2 \<le> 2 powi (k - 52) / 2"
      using ulp_of_le [OF a0 assms(1,2)] by simp
    also have "\<dots> = 2 powi (k - 53)"
    proof -
      have "(2 :: real) powi (k - 52) = 2 powi ((k - 53) + 1)" by simp
      also have "\<dots> = 2 powi (k - 53) * 2" by (rule two_powi_Suc)
      finally show ?thesis by simp
    qed
    finally have e: "\<bar>rmag \<bar>x\<bar> - \<bar>x\<bar>\<bar> \<le> 2 powi (k - 53)"
      using rmag_error [OF a0] by simp
    have "(2 :: real) powi (k - 53) \<le> 2 powi (k + 1)" by (intro two_powi_mono) simp
    with e assms(1) have "rmag \<bar>x\<bar> < 2 * 2 powi (k + 1)" by (simp add: abs_le_iff)
    also have "\<dots> = 2 powi (k + 2)"
    proof -
      have "(2 :: real) powi (k + 2) = 2 powi ((k + 1) + 1)" by (simp add: add.assoc)
      also have "\<dots> = 2 powi (k + 1) * 2" by (rule two_powi_Suc)
      finally show ?thesis by simp
    qed
    also have "\<dots> \<le> 2 powi 1024" using assms(3) by (intro two_powi_mono) simp
    finally have small: "rmag \<bar>x\<bar> < 2 ^ 1024" by simp
    from round64_val [OF False small] e show ?thesis
      by (auto simp: abs_le_iff split: if_splits)
  qed
  then show "is_finite (round64 x)" and "\<bar>val (round64 x) - x\<bar> \<le> 2 powi (k - 53)"
    by simp_all
qed

lemma round64_grid:
  assumes "\<bar>x\<bar> \<le> B" "B = of_int M * 2 powi j" "B < 2 powi (j + 53)" "- 1074 \<le> j"
    and "B < 2 ^ 1024"
  shows "is_finite (round64 x)" and "\<bar>val (round64 x)\<bar> \<le> B"
proof -
  have fin0: "is_finite (Fin 0)" by (simp add: is_finite_def is_inf_def)
  have B0: "0 \<le> B" using assms(1) by simp
  have "is_finite (round64 x) \<and> \<bar>val (round64 x)\<bar> \<le> B"
  proof (cases "x = 0")
    case True
    then show ?thesis using fin0 B0 by simp
  next
    case False
    let ?a = "\<bar>x\<bar>"
    have a0: "0 < ?a" using False by simp
    define E where "E = max \<lfloor>log 2 ?a\<rfloor> (- 1022)"
    have u: "ulp_of ?a = 2 powi (E - 52)" by (simp add: ulp_of_def E_def)
    have "2 powi \<lfloor>log 2 ?a\<rfloor> < (2 :: real) powi (j + 53)"
      using floor_log2_bounds [OF a0] assms(1,3) by simp
    then have "\<lfloor>log 2 ?a\<rfloor> < j + 53" by (rule two_powi_less_D)
    with assms(4) have Ej: "E - 52 \<le> j" by (simp add: E_def)
    define t where "t = nat (j - (E - 52))"
    have pj: "2 powi j = (2 :: real) powi (E - 52) * 2 ^ t"
    proof -
      have "j = (E - 52) + int t" using Ej by (simp add: t_def)
      then have "(2 :: real) powi j = 2 powi ((E - 52) + int t)" by simp
      also have "\<dots> = 2 powi (E - 52) * 2 powi (int t)" by (simp add: power_int_add)
      finally show ?thesis by simp
    qed
    have Bu: "B = of_int (M * 2 ^ t) * ulp_of ?a"
      unfolding u assms(2) pj by simp
    have "?a / ulp_of ?a \<le> B / ulp_of ?a"
      using assms(1) ulp_of_pos [of ?a] by (simp add: divide_right_mono)
    also have "B / ulp_of ?a = of_int (M * 2 ^ t)"
      using ulp_of_pos [of ?a] by (subst Bu) simp
    finally have "rne (?a / ulp_of ?a) \<le> M * 2 ^ t" by (rule rne_le)
    then have "real_of_int (rne (?a / ulp_of ?a)) \<le> real_of_int (M * 2 ^ t)"
      by (simp only: of_int_le_iff)
    then have le: "rmag ?a \<le> B"
      unfolding rmag_def using ulp_of_pos [of ?a] by (subst Bu) (simp add: mult_right_mono)
    with assms(5) have small: "rmag ?a < 2 ^ 1024" by simp
    have "0 \<le> rmag ?a" by (rule rmag_nonneg) simp
    with round64_val [OF False small] le show ?thesis
      by (auto simp: abs_le_iff split: if_splits)
  qed
  then show "is_finite (round64 x)" and "\<bar>val (round64 x)\<bar> \<le> B" by simp_all
qed

lemma round64_nonneg:
  assumes "0 \<le> x"
  shows "0 \<le> val (round64 x)"
proof -
  have "0 \<le> rmag \<bar>x\<bar>" by (rule rmag_nonneg) simp
  with assms show ?thesis
    by (auto simp: round64_def zero_of_def inf_of_def)
qed

lemma is_finite_Fin [simp]: "is_finite (Fin x)"
  by (simp add: is_finite_def is_inf_def)

lemma is_finite_zero_of [simp]: "is_finite (zero_of s)"
  by (simp add: is_finite_def is_inf_def zero_of_def)

lemma val_zero_of [simp]: "val (zero_of s) = 0"
  by (simp add: zero_of_def)

lemma is_zero_val: "is_zero a \<Longrightarrow> val a = 0"
  by (auto simp: is_zero_def)

lemma fdiv_finite:
  assumes "is_finite a" "is_finite b" "\<not> is_zero b"
  shows "val (fdiv a b) = val (round64 (val a / val b))"
    and "is_finite (fdiv a b) = is_finite (round64 (val a / val b))"
  using assms by (auto simp: fdiv_def is_finite_def is_zero_val is_inf_def zero_of_def)

lemma fmul_finite:
  assumes "is_finite a" "is_finite b"
  shows "val (fmul a b) = val (round64 (val a * val b))"
    and "is_finite (fmul a b) = is_finite (round64 (val a * val b))"
  using assms by (auto simp: fmul_def is_finite_def is_zero_val is_inf_def zero_of_def)

lemma fadd_finite:
  assumes "is_finite a" "is_finite b"
  shows "val (fadd a b) = val (round64 (val a + val b))"
    and "is_finite (fadd a b) = is_finite (round64 (val a + val b))"
  using assms by (auto simp: fadd_def is_finite_def is_inf_def)

lemma fadd_Fin: "fadd (Fin a) (Fin b) = round64 (a + b)"
  by (simp add: fadd_def is_inf_def)

subsection \<open>Facts about the areas and the face weight\<close>

lemmas double_ops = fadd_def fsub_def fmul_def fdiv_def pow2_def is_zero_def is_inf_def
  zero_of_def inf_of_def

lemma round64_half: "round64 (1 / 2) = Fin (1 / 2)"
  using round64_dyadic [of 1 "- 1"] by (simp add: power_int_minus)

lemma coord_append: "length A = n \<Longrightarrow> coord past' (A @ [past A n]) i = (if i \<le> n then coord past A i else past' (A @ [past A n]) i)"
  by (auto simp: coord_def nth_append)

lemma projected_area_swap: "projected_area past B A C = projected_area past A B C"
proof -
  let ?a0 = "coord past A 0" and ?a1 = "coord past A 1"
  let ?b0 = "coord past B 0" and ?b1 = "coord past B 1"
  let ?c0 = "coord past C 0" and ?c1 = "coord past C 1"
  have 1: "opp (fmul ?b0 (fsub ?a1 ?c1)) (fmul ?b0 (fsub ?c1 ?a1))"
    by (rule opp_fmul) (rule opp_fsub)
  have 2: "opp (fmul ?a0 (fsub ?c1 ?b1)) (fmul ?a0 (fsub ?b1 ?c1))"
    by (rule opp_fmul) (rule opp_fsub)
  have 3: "opp (fmul ?c0 (fsub ?b1 ?a1)) (fmul ?c0 (fsub ?a1 ?b1))"
    by (rule opp_fmul) (rule opp_fsub)
  have "opp (fadd (fadd (fmul ?b0 (fsub ?a1 ?c1)) (fmul ?a0 (fsub ?c1 ?b1)))
                  (fmul ?c0 (fsub ?b1 ?a1)))
            (fadd (fadd (fmul ?b0 (fsub ?c1 ?a1)) (fmul ?a0 (fsub ?b1 ?c1)))
                  (fmul ?c0 (fsub ?a1 ?b1)))"
    by (intro opp_fadd 1 2 3)
  then have "opp (fadd (fadd (fmul ?b0 (fsub ?a1 ?c1)) (fmul ?a0 (fsub ?c1 ?b1)))
                  (fmul ?c0 (fsub ?b1 ?a1)))
            (fadd (fadd (fmul ?a0 (fsub ?b1 ?c1)) (fmul ?b0 (fsub ?c1 ?a1)))
                  (fmul ?c0 (fsub ?a1 ?b1)))"
    by (simp only: fadd_commute [of "fmul ?b0 (fsub ?c1 ?a1)"])
  then show ?thesis
    unfolding projected_area_def by (intro opp_fabs opp_fmul)
qed

lemma fabs_cases: "(\<exists>x. 0 \<le> x \<and> fabs a = Fin x) \<or> fabs a = PInf \<or> fabs a = NaN"
  by (cases a) simp_all

lemma projected_area_take:
  assumes "2 \<le> length A" "2 \<le> length B" "2 \<le> length C"
  shows "projected_area past' (take 2 A) (take 2 B) (take 2 C) = projected_area past A B C"
proof -
  have c: "coord past' (take 2 X) i = coord past X i" if "2 \<le> length X" "i < 2" for X i
    using that by (simp add: coord_def)
  show ?thesis
    unfolding projected_area_def by (simp add: c assms)
qed

lemma spatial_area_take:
  assumes "3 \<le> length A" "3 \<le> length B" "3 \<le> length C"
  shows "spatial_area past' (take 3 A) (take 3 B) (take 3 C) = spatial_area past A B C"
proof -
  have c: "coord past' (take 3 X) i = coord past X i" if "3 \<le> length X" "i < 3" for X i
    using that by (simp add: coord_def)
  show ?thesis
    unfolding spatial_area_def by (simp add: c assms)
qed

lemma spatial_area_past:
  assumes "length A = 2" "length B = 2" "length C = 2"
  shows "spatial_area past' (A @ [past A 2]) (B @ [past B 2]) (C @ [past C 2]) =
         spatial_area past A B C"
  using assms by (simp add: spatial_area_def coord_append)

lemma round64_overflow:
  assumes "2 ^ 1024 \<le> a"
  shows "round64 a = PInf" and "round64 (- a) = NInf"
proof -
  have "(0 :: real) < 2 ^ 1024" by simp
  with assms have a0: "0 < a" by linarith
  define E where "E = max \<lfloor>log 2 a\<rfloor> (- 1022)"
  have u: "ulp_of a = 2 powi (E - 52)" by (simp add: ulp_of_def E_def)
  have "(2 :: real) powi 1024 < 2 powi (\<lfloor>log 2 a\<rfloor> + 1)"
    using floor_log2_bounds [OF a0] assms by simp
  then have "1024 < \<lfloor>log 2 a\<rfloor> + 1" by (rule two_powi_less_D)
  then have E: "1024 \<le> E" "E = \<lfloor>log 2 a\<rfloor>" by (simp_all add: E_def)
  have "2 powi E / 2 powi (E - 52) \<le> a / 2 powi (E - 52)"
    using floor_log2_bounds [OF a0] E(2) by (simp add: divide_right_mono)
  moreover have "(2 :: real) powi E / 2 powi (E - 52) = of_int (2 ^ 52)"
    by (simp add: power_int_diff)
  ultimately have "2 ^ 52 \<le> rne (a / 2 powi (E - 52))"
    by (intro rne_ge) simp
  then have "real_of_int (2 ^ 52) \<le> real_of_int (rne (a / 2 powi (E - 52)))"
    by (simp only: of_int_le_iff)
  then have "2 ^ 52 * 2 powi (E - 52) \<le> rmag a"
    unfolding rmag_def u by (simp add: mult_right_mono)
  moreover have "2 ^ 52 * 2 powi (E - 52) = (2 :: real) powi E"
  proof -
    have "(2 :: real) powi E = 2 powi (52 + (E - 52))" by simp
    also have "\<dots> = 2 powi 52 * 2 powi (E - 52)" by (rule power_int_add) simp
    finally show ?thesis by simp
  qed
  moreover have "(2 :: real) powi 1024 \<le> 2 powi E" using E(1) by (rule two_powi_mono)
  ultimately have big: "2 ^ 1024 \<le> rmag a" by simp
  show "round64 a = PInf" "round64 (- a) = NInf"
    using a0 big by (simp_all add: round64_def inf_of_def)
qed

lemma round64_two_1000: "round64 (2 ^ 1000) = Fin (2 ^ 1000)" "round64 (- (2 ^ 1000)) = Fin (- (2 ^ 1000))"
  using round64_dyadic [of "2 ^ 52" 948] round64_dyadic [of "- (2 ^ 52)" 948]
  by simp_all

lemma round64_two_2000: "round64 (2 ^ 2000) = PInf" "round64 (- (2 ^ 2000)) = NInf"
  using round64_overflow [of "2 ^ 2000"] by simp_all

text \<open>Roundings of the examples below.\<close>

lemma perm_round_1: "round64 (- 9999999899999998) = Fin (- 9999999899999998)"
  using round64_nat_bits(2) [of 1 9999999899999998] by simp

lemma perm_round_2: "round64 (9999999900000000) = Fin (9999999900000000)"
  using round64_nat_bits(1) [of 1 9999999900000000] by simp

lemma perm_round_3: "round64 (- (99999999 / 2)) = Fin (- (99999999 / 2))"
  using round64_dyadic [of "-99999999" "-1"] by (simp add: power_int_minus)

lemma perm_round_4: "round64 (9999999799999999) = Fin (9999999800000000)"
  using round64_nat_bits(1) [of 1 9999999799999999] by simp

lemma perm_round_5: "round64 (- 9999999999999999) = Fin (- 10000000000000000)"
  using round64_nat_bits(2) [of 1 9999999999999999] by simp

lemma square_round_1: "round64 (12345678900000000) = Fin (12345678900000000)"
  using round64_nat_bits(1) [of 1 12345678900000000] by simp

lemma square_round_2: "round64 (12345679023456789) = Fin (12345679023456788)"
  using round64_nat_bits(1) [of 1 12345679023456789] by simp

lemma square_round_3: "round64 (12345679000000000) = Fin (12345679000000000)"
  using round64_nat_bits(1) [of 1 12345679000000000] by simp

lemma square_round_4: "round64 (- 12345679123456788) = Fin (- 12345679123456788)"
  using round64_nat_bits(2) [of 1 12345679123456788] by simp

lemma square_round_5: "round64 (12345679123456790) = Fin (12345679123456790)"
  using round64_nat_bits(1) [of 1 12345679123456790] by simp

lemma square_round_6: "round64 (12345679023456790) = Fin (12345679023456790)"
  using round64_nat_bits(1) [of 1 12345679023456790] by simp

lemma square_round_7: "round64 (- 12345679023456788) = Fin (- 12345679023456788)"
  using round64_nat_bits(2) [of 1 12345679023456788] by simp

lemma square_round_8: "round64 (12345679000000002) = Fin (12345679000000002)"
  using round64_nat_bits(1) [of 1 12345679000000002] by simp

lemma flat_round_1: "round64 (10000000000000000) = Fin (10000000000000000)"
  using round64_nat_bits(1) [of 1 10000000000000000] by simp

lemma flat_round_2: "round64 (10000000100000000) = Fin (10000000100000000)"
  using round64_nat_bits(1) [of 1 10000000100000000] by simp

lemma flat_round_3: "round64 (- 10000000200000000) = Fin (- 10000000200000000)"
  using round64_nat_bits(2) [of 1 10000000200000000] by simp

lemma flat_round_4: "round64 (10000000200000001) = Fin (10000000200000000)"
  using round64_nat_bits(1) [of 1 10000000200000001] by simp

lemma flat_round_5: "round64 (- 10000000100000000) = Fin (- 10000000100000000)"
  using round64_nat_bits(2) [of 1 10000000100000000] by simp

lemma edge_round_1: "round64 (3 / 5) = Fin (5404319552844595 / 9007199254740992)"
  using round64_near(1) [of "- 1" "3 / 5" 5404319552844595] by (simp add: power_int_minus)

lemmas perm_rounds = perm_round_1 perm_round_2 perm_round_3 perm_round_4 perm_round_5
lemmas square_rounds = square_round_1 square_round_2 square_round_3 square_round_4
  square_round_5 square_round_6 square_round_7 square_round_8
lemmas flat_rounds = flat_round_1 flat_round_2 flat_round_3 flat_round_4 flat_round_5

text \<open>
  Claim C4, as the code has it. For points with at least two coordinates,
  \<^verbatim>\<open>triangle_area\<close> with \<^verbatim>\<open>project = true\<close> returns
  \<open>|0.5 * (Ax (By - Cy) + Bx (Cy - Ay) + Cx (Ay - By))|\<close> as double arithmetic
  computes it, every operation rounded. It reads the first two coordinates of
  each point only. For all points, the result is never negative: it is a number
  that is not below 0, or \<open>+inf\<close>, or NaN. It is the same when the first two points
  are exchanged, so that the six orders of the three points give at most three
  results: one for \<open>A B C\<close> and \<open>B A C\<close>, one for \<open>B C A\<close> and \<open>C B A\<close>, one for
  \<open>C A B\<close> and \<open>A C B\<close>.
\<close>

theorem triangle_area_projected:
  "(2 \<le> length A \<and> 2 \<le> length B \<and> 2 \<le> length C \<longrightarrow>
      triangle_area past A B C True =
        fabs (fmul (Fin 0.5)
          (fadd (fadd (fmul (A ! 0) (fsub (B ! 1) (C ! 1)))
                      (fmul (B ! 0) (fsub (C ! 1) (A ! 1))))
                (fmul (C ! 0) (fsub (A ! 1) (B ! 1))))) \<and>
      triangle_area past' (take 2 A) (take 2 B) (take 2 C) True =
        triangle_area past A B C True) \<and>
   ((\<exists>x. 0 \<le> x \<and> triangle_area past A B C True = Fin x) \<or>
    triangle_area past A B C True = PInf \<or> triangle_area past A B C True = NaN) \<and>
   triangle_area past B A C True = triangle_area past A B C True \<and>
   triangle_area past C B A True = triangle_area past B C A True \<and>
   triangle_area past A C B True = triangle_area past C A B True"
proof -
  have 1: "triangle_area past A B C True =
           fabs (fmul (Fin 0.5)
             (fadd (fadd (fmul (A ! 0) (fsub (B ! 1) (C ! 1)))
                         (fmul (B ! 0) (fsub (C ! 1) (A ! 1))))
                   (fmul (C ! 0) (fsub (A ! 1) (B ! 1)))))"
    if l: "2 \<le> length A \<and> 2 \<le> length B \<and> 2 \<le> length C"
  proof -
    from l have "0 < length A" "1 < length A" "0 < length B" "1 < length B"
      "0 < length C" "1 < length C"
      by linarith+
    then show ?thesis
      by (simp add: triangle_area_def projected_area_def coord_def)
  qed
  have 2: "triangle_area past' (take 2 A) (take 2 B) (take 2 C) True =
           triangle_area past A B C True"
    if l: "2 \<le> length A \<and> 2 \<le> length B \<and> 2 \<le> length C"
    using projected_area_take [of A B C past' past] l by (simp add: triangle_area_def)
  have 3: "(\<exists>x. 0 \<le> x \<and> triangle_area past A B C True = Fin x) \<or>
          triangle_area past A B C True = PInf \<or> triangle_area past A B C True = NaN"
    unfolding triangle_area_def projected_area_def by (simp only: if_True) (rule fabs_cases)
  have 4: "triangle_area past Y X Z True = triangle_area past X Y Z True" for X Y Z
    by (simp add: triangle_area_def projected_area_swap)
  from 1 2 3 4 [of B A C] 4 [of C B A] 4 [of A C B] show ?thesis by blast
qed

theorem triangle_area_projected_witness:
  "triangle_area zero_memory [Fin 0, Fin 0, Fin 7] [Fin 4, Fin 0, Fin 1] [Fin 0, Fin 3, Fin 2] True
     = Fin 6 \<and>
   triangle_area zero_memory [Fin 0, Fin 0] [Fin 4, Fin 0] [Fin 0, Fin 3] True = Fin 6 \<and>
   triangle_area zero_memory [Fin 4, Fin 0, Fin 1] [Fin 0, Fin 0, Fin 7] [Fin 0, Fin 3, Fin 2] True
     = Fin 6"
proof -
  have l: "2 \<le> length [Fin 0, Fin 0, Fin 7] \<and> 2 \<le> length [Fin 4, Fin 0, Fin 1] \<and>
    2 \<le> length [Fin 0, Fin 3, Fin 2]"
    by simp
  note t = triangle_area_projected [of "[Fin 0, Fin 0, Fin 7]" "[Fin 4, Fin 0, Fin 1]"
      "[Fin 0, Fin 3, Fin 2]" zero_memory zero_memory]
  note e = t [THEN conjunct1, THEN mp, OF l]
  from e [THEN conjunct1] have v: "triangle_area zero_memory [Fin 0, Fin 0, Fin 7]
      [Fin 4, Fin 0, Fin 1] [Fin 0, Fin 3, Fin 2] True = Fin 6"
    by (simp add: double_ops)
  moreover from e [THEN conjunct2] v
  have "triangle_area zero_memory [Fin 0, Fin 0] [Fin 4, Fin 0] [Fin 0, Fin 3] True = Fin 6"
    by simp
  moreover from t v have "triangle_area zero_memory [Fin 4, Fin 0, Fin 1] [Fin 0, Fin 0, Fin 7]
      [Fin 0, Fin 3, Fin 2] True = Fin 6"
    by simp
  ultimately show ?thesis by simp
qed

text \<open>
  The claim as stated fails. The triangle with the vertices
  \<open>(100000001, 100000001)\<close>, \<open>(100000000, 100000002)\<close> and
  \<open>(100000001, 200000000)\<close> has three different areas for the three cyclic orders
  of its vertices, as the products are rounded to 53 bits before they are added.
  And for the points \<open>A = B = (2^1000, 2^1000)\<close> and \<open>C = (0, 0)\<close>, where two
  products overflow to infinities of opposite signs, the result is NaN, not a
  number that is 0 or more.
\<close>

theorem triangle_area_permutation_counterexample:
  "triangle_area zero_memory [Fin 100000001, Fin 100000001] [Fin 100000000, Fin 100000002]
     [Fin 100000001, Fin 200000000] True = Fin (99999999 / 2) \<and>
   triangle_area zero_memory [Fin 100000000, Fin 100000002] [Fin 100000001, Fin 200000000]
     [Fin 100000001, Fin 100000001] True = Fin 49999999 \<and>
   triangle_area zero_memory [Fin 100000001, Fin 200000000] [Fin 100000001, Fin 100000001]
     [Fin 100000000, Fin 100000002] True = Fin 50000000 \<and>
   triangle_area zero_memory [Fin (2 ^ 1000), Fin (2 ^ 1000)] [Fin (2 ^ 1000), Fin (2 ^ 1000)]
     [Fin 0, Fin 0] True = NaN"
proof -
  have 1: "triangle_area zero_memory [Fin 100000001, Fin 100000001]
      [Fin 100000000, Fin 100000002] [Fin 100000001, Fin 200000000] True = Fin (99999999 / 2)"
    by (simp add: triangle_area_def projected_area_def coord_def double_ops perm_rounds)
  have 2: "triangle_area zero_memory [Fin 100000000, Fin 100000002]
      [Fin 100000001, Fin 200000000] [Fin 100000001, Fin 100000001] True = Fin 49999999"
    by (simp add: triangle_area_def projected_area_def coord_def double_ops perm_rounds)
  have 3: "triangle_area zero_memory [Fin 100000001, Fin 200000000]
      [Fin 100000001, Fin 100000001] [Fin 100000000, Fin 100000002] True = Fin 50000000"
    by (simp add: triangle_area_def projected_area_def coord_def double_ops perm_rounds)
  have 4: "triangle_area zero_memory [Fin (2 ^ 1000), Fin (2 ^ 1000)]
      [Fin (2 ^ 1000), Fin (2 ^ 1000)] [Fin 0, Fin 0] True = NaN"
  proof -
    define H :: real where "H = 2 ^ 1000"
    have h: "H \<noteq> 0" "\<not> H < 0" "round64 H = Fin H" "round64 (- H) = Fin (- H)"
      unfolding H_def using round64_two_1000 by simp_all
    have "H * H = 2 ^ 2000" unfolding H_def by (simp flip: power_add)
    then have hh: "round64 (H * H) = PInf" "round64 (- (H * H)) = NInf"
      using round64_two_2000 by simp_all
    have "triangle_area zero_memory [Fin H, Fin H] [Fin H, Fin H] [Fin 0, Fin 0] True = NaN"
      by (simp add: triangle_area_def projected_area_def coord_def double_ops h hh)
    then show ?thesis unfolding H_def .
  qed
  from 1 2 3 4 show ?thesis by simp
qed

text \<open>
  Claim C5, as the code has it. The claim asks for an \<open>InvalidDimension\<close> failure
  whenever \<^verbatim>\<open>project\<close> is false and the dimension is not 3. The function checks no
  dimension and has no failure: for every dimension it evaluates the same
  expression, half the square root of the sum of the squares of the three expanded
  minors, on the coordinates 0, 1 and 2 of the points. For points of a dimension
  of 3 or more these are their first three coordinates, whatever the dimension
  and whatever lies after the points. For points of dimension 2 the coordinate 2
  is read after the end of the point, and the result is that of the three points
  of dimension 3 whose last coordinates are what these reads return.
\<close>

theorem triangle_area_unprojected:
  assumes "length A = n" "length B = n" "length C = n"
  shows "(3 \<le> n \<longrightarrow>
            triangle_area past A B C False =
              (let x1 = A ! 0; y1 = A ! 1; z1 = A ! 2;
                   x2 = B ! 0; y2 = B ! 1; z2 = B ! 2;
                   x3 = C ! 0; y3 = C ! 1; z3 = C ! 2
               in fmul (Fin 0.5) (fsqrt (fadd (fadd
                 (pow2 (fsub (fadd (fadd (fsub (fsub (fmul x1 y2) (fmul x2 y1)) (fmul x1 y3))
                                         (fmul x3 y1)) (fmul x2 y3)) (fmul x3 y2)))
                 (pow2 (fsub (fadd (fadd (fsub (fsub (fmul x1 z2) (fmul x2 z1)) (fmul x1 z3))
                                         (fmul x3 z1)) (fmul x2 z3)) (fmul x3 z2))))
                 (pow2 (fsub (fadd (fadd (fsub (fsub (fmul y1 z2) (fmul y2 z1)) (fmul y1 z3))
                                         (fmul y3 z1)) (fmul y2 z3)) (fmul y3 z2)))))) \<and>
            triangle_area past' (take 3 A) (take 3 B) (take 3 C) False =
              triangle_area past A B C False) \<and>
         (n = 2 \<longrightarrow>
            triangle_area past' (A @ [past A 2]) (B @ [past B 2]) (C @ [past C 2]) False =
              triangle_area past A B C False)"
proof -
  have 1: "triangle_area past A B C False =
              (let x1 = A ! 0; y1 = A ! 1; z1 = A ! 2;
                   x2 = B ! 0; y2 = B ! 1; z2 = B ! 2;
                   x3 = C ! 0; y3 = C ! 1; z3 = C ! 2
               in fmul (Fin 0.5) (fsqrt (fadd (fadd
                 (pow2 (fsub (fadd (fadd (fsub (fsub (fmul x1 y2) (fmul x2 y1)) (fmul x1 y3))
                                         (fmul x3 y1)) (fmul x2 y3)) (fmul x3 y2)))
                 (pow2 (fsub (fadd (fadd (fsub (fsub (fmul x1 z2) (fmul x2 z1)) (fmul x1 z3))
                                         (fmul x3 z1)) (fmul x2 z3)) (fmul x3 z2))))
                 (pow2 (fsub (fadd (fadd (fsub (fsub (fmul y1 z2) (fmul y2 z1)) (fmul y1 z3))
                                         (fmul y3 z1)) (fmul y2 z3)) (fmul y3 z2))))))"
    if "3 \<le> n"
  proof -
    have c: "coord past X i = X ! i" if "length X = n" "i < 3" for X i
      using that \<open>3 \<le> n\<close> by (simp add: coord_def)
    show ?thesis
      unfolding triangle_area_def spatial_area_def by (simp add: c assms)
  qed
  have 2: "triangle_area past' (take 3 A) (take 3 B) (take 3 C) False =
           triangle_area past A B C False" if "3 \<le> n"
    using spatial_area_take [of A B C past' past] that assms by (simp add: triangle_area_def)
  have 3: "triangle_area past' (A @ [past A 2]) (B @ [past B 2]) (C @ [past C 2]) False =
           triangle_area past A B C False" if "n = 2"
    using spatial_area_past [of A B C past' past] that assms by (simp add: triangle_area_def)
  from 1 2 3 show ?thesis by blast
qed

theorem triangle_area_unprojected_witness:
  "triangle_area zero_memory [Fin 0, Fin 0, Fin 0, Fin 9] [Fin 1, Fin 0, Fin 0, Fin 9]
     [Fin 0, Fin 1, Fin 0, Fin 9] False = Fin (1 / 2) \<and>
   triangle_area zero_memory [Fin 0, Fin 0, Fin 0] [Fin 1, Fin 0, Fin 0] [Fin 0, Fin 1, Fin 0] False
     = Fin (1 / 2) \<and>
   triangle_area zero_memory [Fin 0, Fin 0] [Fin 1, Fin 0] [Fin 0, Fin 1] False = Fin (1 / 2)"
proof -
  have a: "length [Fin 0, Fin 0, Fin 0, Fin 9] = 4" "length [Fin 1, Fin 0, Fin 0, Fin 9] = 4"
    "length [Fin 0, Fin 1, Fin 0, Fin 9] = 4"
    by simp_all
  have b: "length [Fin 0, Fin 0] = 2" "length [Fin 1, Fin 0] = 2" "length [Fin 0, Fin 1] = 2"
    by simp_all
  have n: "3 \<le> (4 :: nat)" "(2 :: nat) = 2" by simp_all
  note t4 = triangle_area_unprojected [OF a, of zero_memory zero_memory, THEN conjunct1, THEN mp,
      OF n(1)]
  note t2 = triangle_area_unprojected [OF b, of zero_memory zero_memory, THEN conjunct2, THEN mp,
      OF n(2)]
  have 1: "triangle_area zero_memory [Fin 0, Fin 0, Fin 0, Fin 9]
      [Fin 1, Fin 0, Fin 0, Fin 9] [Fin 0, Fin 1, Fin 0, Fin 9] False = Fin (1 / 2)"
    unfolding t4 [THEN conjunct1] Let_def by (simp add: double_ops round64_half)
  from t4 [THEN conjunct2] 1 have 2: "triangle_area zero_memory [Fin 0, Fin 0, Fin 0]
      [Fin 1, Fin 0, Fin 0] [Fin 0, Fin 1, Fin 0] False = Fin (1 / 2)"
    by simp
  from t2 2 have 3: "triangle_area zero_memory [Fin 0, Fin 0] [Fin 1, Fin 0] [Fin 0, Fin 1] False
      = Fin (1 / 2)"
    by (simp add: zero_memory_def)
  from 1 2 3 show ?thesis by simp
qed

text \<open>
  The claim as stated fails: for three points of dimension 2, and for three
  points of dimension 4, with \<^verbatim>\<open>project = false\<close>, the function returns a number
  and no failure. In dimension 2 the number is the area of the triangle when
  the memory after the points holds zeros, and another number when it holds
  something else.
\<close>

theorem triangle_area_invalid_dimension_counterexample:
  "length [Fin 0, Fin 0] = 2 \<and> length [Fin 1, Fin 0] = 2 \<and> length [Fin 0, Fin 1] = 2 \<and>
   triangle_area zero_memory [Fin 0, Fin 0] [Fin 1, Fin 0] [Fin 0, Fin 1] False = Fin (1 / 2) \<and>
   length [Fin 0, Fin 0, Fin 0, Fin 9] = 4 \<and>
   triangle_area zero_memory [Fin 0, Fin 0, Fin 0, Fin 9] [Fin 1, Fin 0, Fin 0, Fin 9]
     [Fin 0, Fin 1, Fin 0, Fin 9] False = Fin (1 / 2)"
  unfolding triangle_area_def spatial_area_def Let_def
  by (simp add: coord_def zero_memory_def double_ops round64_half)

text \<open>
  Claim C6. \<^verbatim>\<open>recharge_weight\<close> returns, in dimension 2, \<open>|v2.x - v1.x|\<close> divided
  by the Euclidean distance of the two vertices of the face; in dimension 3, the
  sum of the projected areas of the triangles \<open>(v1, v2, v4)\<close> and \<open>(v1, v4, v3)\<close>
  divided by the sum of their areas in space, all four obtained from
  \<^verbatim>\<open>triangle_area\<close>; and 1 for every other dimension, whatever the face. The
  operations are those of doubles. The quotient of two numbers is the exact
  quotient rounded, where the divisor is not 0 (a zero for the dividend 0); a
  division by 0 gives an infinity, or NaN for the dividend 0.
\<close>

theorem recharge_weight_value:
  "(length v1 = 2 \<and> length v2 = 2 \<longrightarrow>
      recharge_weight past 2 [v1, v2] =
        Inr (fdiv (fabs (fsub (v2 ! 0) (v1 ! 0)))
                  (fsqrt (fadd (fadd (Fin 0) (pow2 (fsub (v1 ! 0) (v2 ! 0))))
                               (pow2 (fsub (v1 ! 1) (v2 ! 1))))))) \<and>
   recharge_weight past 3 [w1, w2, w3, w4] =
     Inr (fdiv (fadd (triangle_area past w1 w2 w4 True) (triangle_area past w1 w4 w3 True))
               (fadd (triangle_area past w1 w2 w4 False) (triangle_area past w1 w4 w3 False))) \<and>
   (dimn \<noteq> 2 \<and> dimn \<noteq> 3 \<longrightarrow> recharge_weight past dimn vs = Inr (Fin 1)) \<and>
   (b \<noteq> 0 \<longrightarrow>
      fdiv (Fin a) (Fin b) = (if a = 0 then zero_of (b < 0) else round64 (a / b))) \<and>
   fdiv (Fin a) (Fin 0) = (if a = 0 then NaN else inf_of (a < 0))"
proof -
  have "recharge_weight past 2 [v1, v2] =
        Inr (fdiv (fabs (fsub (v2 ! 0) (v1 ! 0)))
                  (fsqrt (fadd (fadd (Fin 0) (pow2 (fsub (v1 ! 0) (v2 ! 0))))
                               (pow2 (fsub (v1 ! 1) (v2 ! 1))))))"
    if l1: "length v1 = 2" and l2: "length v2 = 2"
  proof -
    obtain a b where v1: "v1 = [a, b]" using l1
      by (auto simp: numeral_2_eq_2 length_Suc_conv)
    obtain c d where v2: "v2 = [c, d]" using l2
      by (auto simp: numeral_2_eq_2 length_Suc_conv)
    show ?thesis
      unfolding v1 v2
      by (simp add: recharge_weight_def then_res_def vertex_def distance_def coord_def pow2_def)
  qed
  moreover have "recharge_weight past 3 [w1, w2, w3, w4] =
        Inr (fdiv (fadd (triangle_area past w1 w2 w4 True) (triangle_area past w1 w4 w3 True))
                  (fadd (triangle_area past w1 w2 w4 False)
                        (triangle_area past w1 w4 w3 False)))"
    by (simp add: recharge_weight_def then_res_def vertex_def)
  moreover have "recharge_weight past dimn vs = Inr (Fin 1)" if "dimn \<noteq> 2" "dimn \<noteq> 3"
    using that by (simp add: recharge_weight_def)
  moreover have "fdiv (Fin a) (Fin b) = (if a = 0 then zero_of (b < 0) else round64 (a / b))"
    if "b \<noteq> 0"
    using that by (simp add: fdiv_def is_zero_def is_inf_def)
  moreover have "fdiv (Fin a) (Fin 0) = (if a = 0 then NaN else inf_of (a < 0))"
    by (simp add: fdiv_def is_zero_def is_inf_def)
  ultimately show ?thesis by blast
qed

theorem recharge_weight_value_witness:
  "recharge_weight zero_memory 2 [[Fin 0, Fin 0], [Fin 3, Fin 4]] =
     Inr (Fin (5404319552844595 / 9007199254740992)) \<and>
   recharge_weight zero_memory 3
     [[Fin 0, Fin 0, Fin 0], [Fin 1, Fin 0, Fin 0], [Fin 0, Fin 1, Fin 0], [Fin 1, Fin 1, Fin 0]] =
     Inr (Fin 1) \<and>
   recharge_weight zero_memory 1 [] = Inr (Fin 1)"
proof -
  have sq: "sqrt 25 = 5"
    using real_sqrt_abs [of 5] by simp
  have e: "length [Fin 0, Fin 0] = 2 \<and> length [Fin 3, Fin 4] = 2" by simp
  have d: "(1 :: int) \<noteq> 2 \<and> (1 :: int) \<noteq> 3" by simp
  have n: "(5 :: real) \<noteq> 0" by simp
  note t = recharge_weight_value
    [of "[Fin 0, Fin 0]" "[Fin 3, Fin 4]" zero_memory "[Fin 0, Fin 0, Fin 0]" "[Fin 1, Fin 0, Fin 0]"
        "[Fin 0, Fin 1, Fin 0]" "[Fin 1, Fin 1, Fin 0]" 1 "[]" 5 3]
  from t n have "fdiv (Fin 3) (Fin 5) = round64 (3 / 5)" by simp
  moreover from t e have "recharge_weight zero_memory 2 [[Fin 0, Fin 0], [Fin 3, Fin 4]] =
      Inr (fdiv (Fin 3) (Fin 5))"
    by (simp add: fadd_def fsub_def fmul_def pow2_def is_zero_def is_inf_def zero_of_def sq)
  ultimately have 1: "recharge_weight zero_memory 2 [[Fin 0, Fin 0], [Fin 3, Fin 4]] =
     Inr (Fin (5404319552844595 / 9007199254740992))"
    by (simp add: edge_round_1)
  from t have "recharge_weight zero_memory 3
     [[Fin 0, Fin 0, Fin 0], [Fin 1, Fin 0, Fin 0], [Fin 0, Fin 1, Fin 0], [Fin 1, Fin 1, Fin 0]] =
     Inr (fdiv (fadd (triangle_area zero_memory [Fin 0, Fin 0, Fin 0] [Fin 1, Fin 0, Fin 0]
                        [Fin 1, Fin 1, Fin 0] True)
                     (triangle_area zero_memory [Fin 0, Fin 0, Fin 0] [Fin 1, Fin 1, Fin 0]
                        [Fin 0, Fin 1, Fin 0] True))
               (fadd (triangle_area zero_memory [Fin 0, Fin 0, Fin 0] [Fin 1, Fin 0, Fin 0]
                        [Fin 1, Fin 1, Fin 0] False)
                     (triangle_area zero_memory [Fin 0, Fin 0, Fin 0] [Fin 1, Fin 1, Fin 0]
                        [Fin 0, Fin 1, Fin 0] False)))"
    by blast
  also have "\<dots> = Inr (Fin 1)"
    unfolding triangle_area_def projected_area_def spatial_area_def Let_def
    by (simp add: coord_def double_ops round64_half)
  finally have 2: "recharge_weight zero_memory 3
     [[Fin 0, Fin 0, Fin 0], [Fin 1, Fin 0, Fin 0], [Fin 0, Fin 1, Fin 0], [Fin 1, Fin 1, Fin 0]] =
     Inr (Fin 1)" .
  from t d have 3: "recharge_weight zero_memory 1 [] = Inr (Fin 1)" by blast
  from 1 2 3 show ?thesis by simp
qed

text \<open>
  Claim C7. The claim holds of the quotient of the two areas in exact arithmetic
  and fails of the function: the area in space is computed from fully expanded
  products of the coordinates, which are rounded before they cancel, where the
  projected area is computed from differences of the coordinates. For the
  horizontal unit square with its corner at \<open>(100000000, 123456789, 1000)\<close> each
  triangle has the projected area \<open>1/2\<close> and the computed area in space 1, and the
  weight is \<open>1/2\<close>; with the corner at \<open>(100000000, 100000000, 1000)\<close> the
  computed areas in space are 0 and the weight is \<open>+inf\<close>.
\<close>

theorem recharge_weight_horizontal_square:
  "triangle_area zero_memory [Fin 100000000, Fin 123456789, Fin 1000]
     [Fin 100000001, Fin 123456789, Fin 1000] [Fin 100000001, Fin 123456790, Fin 1000] True
     = Fin (1 / 2) \<and>
   triangle_area zero_memory [Fin 100000000, Fin 123456789, Fin 1000]
     [Fin 100000001, Fin 123456789, Fin 1000] [Fin 100000001, Fin 123456790, Fin 1000] False
     = Fin 1 \<and>
   recharge_weight zero_memory 3
     [[Fin 100000000, Fin 123456789, Fin 1000], [Fin 100000001, Fin 123456789, Fin 1000],
      [Fin 100000000, Fin 123456790, Fin 1000], [Fin 100000001, Fin 123456790, Fin 1000]]
     = Inr (Fin (1 / 2)) \<and>
   recharge_weight zero_memory 3
     [[Fin 100000000, Fin 100000000, Fin 1000], [Fin 100000001, Fin 100000000, Fin 1000],
      [Fin 100000000, Fin 100000001, Fin 1000], [Fin 100000001, Fin 100000001, Fin 1000]]
     = Inr PInf"
proof -
  have 1: "triangle_area zero_memory [Fin 100000000, Fin 123456789, Fin 1000]
     [Fin 100000001, Fin 123456789, Fin 1000] [Fin 100000001, Fin 123456790, Fin 1000] True
     = Fin (1 / 2)"
    by (simp add: triangle_area_def projected_area_def coord_def double_ops round64_half)
  have 2: "triangle_area zero_memory [Fin 100000000, Fin 123456789, Fin 1000]
     [Fin 100000001, Fin 123456789, Fin 1000] [Fin 100000001, Fin 123456790, Fin 1000] False
     = Fin 1"
    unfolding triangle_area_def spatial_area_def Let_def
    by (simp add: coord_def double_ops round64_half square_rounds)
  have 3: "triangle_area zero_memory [Fin 100000000, Fin 123456789, Fin 1000]
     [Fin 100000001, Fin 123456790, Fin 1000] [Fin 100000000, Fin 123456790, Fin 1000] True
     = Fin (1 / 2)"
    by (simp add: triangle_area_def projected_area_def coord_def double_ops round64_half)
  have 4: "triangle_area zero_memory [Fin 100000000, Fin 123456789, Fin 1000]
     [Fin 100000001, Fin 123456790, Fin 1000] [Fin 100000000, Fin 123456790, Fin 1000] False
     = Fin 1"
    unfolding triangle_area_def spatial_area_def Let_def
    by (simp add: coord_def double_ops round64_half square_rounds)
  have 5: "recharge_weight zero_memory 3
     [[Fin 100000000, Fin 123456789, Fin 1000], [Fin 100000001, Fin 123456789, Fin 1000],
      [Fin 100000000, Fin 123456790, Fin 1000], [Fin 100000001, Fin 123456790, Fin 1000]]
     = Inr (Fin (1 / 2))"
    by (simp add: recharge_weight_def then_res_def vertex_def 1 2 3 4 double_ops round64_half)
  have 6: "triangle_area zero_memory [Fin 100000000, Fin 100000000, Fin 1000]
     [Fin 100000001, Fin 100000000, Fin 1000] [Fin 100000001, Fin 100000001, Fin 1000] True
     = Fin (1 / 2)"
    by (simp add: triangle_area_def projected_area_def coord_def double_ops round64_half)
  have 7: "triangle_area zero_memory [Fin 100000000, Fin 100000000, Fin 1000]
     [Fin 100000001, Fin 100000000, Fin 1000] [Fin 100000001, Fin 100000001, Fin 1000] False
     = Fin 0"
    unfolding triangle_area_def spatial_area_def Let_def
    by (simp add: coord_def double_ops round64_half flat_rounds)
  have 8: "triangle_area zero_memory [Fin 100000000, Fin 100000000, Fin 1000]
     [Fin 100000001, Fin 100000001, Fin 1000] [Fin 100000000, Fin 100000001, Fin 1000] True
     = Fin (1 / 2)"
    by (simp add: triangle_area_def projected_area_def coord_def double_ops round64_half)
  have 9: "triangle_area zero_memory [Fin 100000000, Fin 100000000, Fin 1000]
     [Fin 100000001, Fin 100000001, Fin 1000] [Fin 100000000, Fin 100000001, Fin 1000] False
     = Fin 0"
    unfolding triangle_area_def spatial_area_def Let_def
    by (simp add: coord_def double_ops round64_half flat_rounds)
  have 10: "recharge_weight zero_memory 3
     [[Fin 100000000, Fin 100000000, Fin 1000], [Fin 100000001, Fin 100000000, Fin 1000],
      [Fin 100000000, Fin 100000001, Fin 1000], [Fin 100000001, Fin 100000001, Fin 1000]]
     = Inr PInf"
    by (simp add: recharge_weight_def then_res_def vertex_def 6 7 8 9 double_ops round64_half)
  from 1 2 5 10 show ?thesis by simp
qed

subsection \<open>Facts about the offsets of the retries\<close>

lemma round64_literal: "round64 0.0001 = Fin (7378697629483821 / 2 ^ 66)"
  using round64_near(1) [of "- 14" "1 / 10000" 7378697629483821]
  by (simp add: power_int_minus)

lemma unit_draw_bounds:
  assumes "0 < rand_max" "0 \<le> r" "r \<le> rand_max"
  shows "is_finite (unit_draw rand_max r)"
    and "0 \<le> val (unit_draw rand_max r)"
    and "val (unit_draw rand_max r) \<le> 1"
    and "\<bar>val (unit_draw rand_max r) - of_int r / of_int rand_max\<bar> \<le> 2 powi (- 53)"
proof -
  let ?x = "real_of_int r / real_of_int rand_max"
  have x: "0 \<le> ?x" "?x \<le> 1" using assms by simp_all
  have z: "\<not> is_zero (Fin (real_of_int rand_max))"
    using assms(1) by (simp add: is_zero_def)
  have v: "val (unit_draw rand_max r) = val (round64 ?x)"
    and f: "is_finite (unit_draw rand_max r) = is_finite (round64 ?x)"
    unfolding unit_draw_def using fdiv_finite [OF _ _ z, of "Fin (real_of_int r)"] by simp_all
  have g: "is_finite (round64 ?x)" "\<bar>val (round64 ?x)\<bar> \<le> 1"
    using round64_grid [of ?x 1 1 0] x by simp_all
  have c: "\<bar>val (round64 ?x) - ?x\<bar> \<le> 2 powi (- 53)"
    using round64_close(2) [of ?x 0] x by simp
  show "is_finite (unit_draw rand_max r)" using f g by simp
  show "0 \<le> val (unit_draw rand_max r)" unfolding v by (rule round64_nonneg) (rule x)
  show "val (unit_draw rand_max r) \<le> 1" unfolding v using g by simp
  show "\<bar>val (unit_draw rand_max r) - of_int r / of_int rand_max\<bar> \<le> 2 powi (- 53)"
    unfolding v by (rule c)
qed

lemma offset_bounds:
  assumes "0 < rand_max" "0 \<le> r" "r \<le> rand_max"
  shows "is_finite (offset rand_max r)"
    and "\<bar>val (offset rand_max r)\<bar> \<le> 7378697629483821 / 2 ^ 66"
    and "\<bar>val (offset rand_max r) -
          7378697629483821 / 2 ^ 66 * (- 1 + 2 * (of_int r / of_int rand_max))\<bar> \<le> 2 powi (- 63)"
proof -
  let ?x = "real_of_int r / real_of_int rand_max"
  let ?c = "7378697629483821 / 2 ^ 66 :: real"
  define u where "u = val (unit_draw rand_max r)"
  note ud = unit_draw_bounds [OF assms, folded u_def]
  define V where "V = fmul (Fin 2) (unit_draw rand_max r)"
  define v where "v = val V"
  have Vv: "v = val (round64 (2 * u))" and Vf: "is_finite V = is_finite (round64 (2 * u))"
    unfolding v_def V_def u_def using fmul_finite [OF _ ud(1), of "Fin 2"] by simp_all
  have vg: "is_finite (round64 (2 * u))" "\<bar>val (round64 (2 * u))\<bar> \<le> 2"
    using round64_grid [of "2 * u" 2 2 0] ud(2,3) by simp_all
  have vc: "\<bar>v - 2 * u\<bar> \<le> 2 powi (- 52)"
    unfolding Vv using round64_close(2) [of "2 * u" 1] ud(2,3) by simp
  have v0: "0 \<le> v" unfolding Vv using ud(2) by (intro round64_nonneg) simp
  have v2: "v \<le> 2" unfolding Vv using vg by simp
  have Vfin: "is_finite V" using Vf vg by simp
  define W where "W = fadd (Fin (- 1)) V"
  define w where "w = val W"
  have Ww: "w = val (round64 (- 1 + v))" and Wf: "is_finite W = is_finite (round64 (- 1 + v))"
    unfolding w_def W_def v_def using fadd_finite [OF _ Vfin, of "Fin (- 1)"] by simp_all
  have wg: "is_finite (round64 (- 1 + v))" "\<bar>val (round64 (- 1 + v))\<bar> \<le> 1"
    using round64_grid [of "- 1 + v" 1 1 0] v0 v2 by simp_all
  have wc: "\<bar>w - (- 1 + v)\<bar> \<le> 2 powi (- 53)"
    unfolding Ww using round64_close(2) [of "- 1 + v" 0] v0 v2 by simp
  have w1: "\<bar>w\<bar> \<le> 1" unfolding Ww using wg by simp
  have Wfin: "is_finite W" using Wf wg by simp
  have o: "offset rand_max r = fmul (Fin ?c) W"
    unfolding offset_def W_def V_def round64_literal ..
  have ov: "val (offset rand_max r) = val (round64 (?c * w))"
    and of': "is_finite (offset rand_max r) = is_finite (round64 (?c * w))"
    unfolding o w_def using fmul_finite [OF _ Wfin, of "Fin ?c"] by simp_all
  have cw: "\<bar>?c * w\<bar> \<le> ?c"
    using w1 by (simp add: abs_mult)
  have og: "is_finite (round64 (?c * w))" "\<bar>val (round64 (?c * w))\<bar> \<le> ?c"
    using round64_grid [of "?c * w" ?c 7378697629483821 "- 66"] cw
    by (simp_all add: power_int_minus field_simps)
  have "\<bar>?c * w\<bar> < 2 powi (- 14 + 1)"
    using cw by (simp add: power_int_minus)
  then have oc: "\<bar>val (round64 (?c * w)) - ?c * w\<bar> \<le> 2 powi (- 14 - 53)"
    by (intro round64_close(2)) simp_all
  show "is_finite (offset rand_max r)" using of' og by simp
  show "\<bar>val (offset rand_max r)\<bar> \<le> ?c" unfolding ov using og by simp
  have e1: "\<bar>u - ?x\<bar> \<le> 1 / 9007199254740992"
    using ud(4) by (simp add: power_int_minus field_simps)
  have e2: "\<bar>v - 2 * u\<bar> \<le> 1 / 4503599627370496"
    using vc by (simp add: power_int_minus field_simps)
  have e3: "\<bar>w - (- 1 + v)\<bar> \<le> 1 / 9007199254740992"
    using wc by (simp add: power_int_minus field_simps)
  have e4: "\<bar>val (offset rand_max r) - ?c * w\<bar> \<le> 1 / 147573952589676412928"
    unfolding ov using oc by (simp add: power_int_minus field_simps)
  have d: "\<bar>w - (- 1 + 2 * ?x)\<bar> \<le> 5 / 9007199254740992"
    using e1 e2 e3 by linarith
  have "\<bar>?c * w - ?c * (- 1 + 2 * ?x)\<bar> = ?c * \<bar>w - (- 1 + 2 * ?x)\<bar>"
    unfolding right_diff_distrib [symmetric] abs_mult by simp
  also have "\<dots> \<le> ?c * (5 / 9007199254740992)"
    using d by (intro mult_left_mono) simp_all
  also have "\<dots> \<le> 1 / 16140901064495857664"
    by simp
  finally have "\<bar>?c * w - ?c * (- 1 + 2 * ?x)\<bar> \<le> 1 / 16140901064495857664" .
  with e4 have "\<bar>val (offset rand_max r) - ?c * (- 1 + 2 * ?x)\<bar>
      \<le> 1 / 9223372036854775808"
    by linarith
  then show "\<bar>val (offset rand_max r) - ?c * (- 1 + 2 * ?x)\<bar> \<le> 2 powi (- 63)"
    by (simp add: power_int_minus field_simps)
qed

lemma affine_diff: "c * (- 1 + 2 * y) - c * (- 1 + 2 * x) = 2 * c * (y - x)" for c x y :: real
  by (simp add: algebra_simps)

lemma offset_strict_mono:
  assumes "0 < rand_max" "rand_max \<le> 2147483647" "0 \<le> r" "r < r'" "r' \<le> rand_max"
  shows "val (offset rand_max r) < val (offset rand_max r')"
proof -
  let ?x = "real_of_int r / real_of_int rand_max"
  let ?x' = "real_of_int r' / real_of_int rand_max"
  let ?c = "7378697629483821 / 2 ^ 66 :: real"
  have r: "r \<le> rand_max" and r': "0 \<le> r'" using assms by simp_all
  have b: "\<bar>val (offset rand_max r) - ?c * (- 1 + 2 * ?x)\<bar> \<le> 1 / 9223372036854775808"
    using offset_bounds(3) [OF assms(1,3) r] by (simp add: power_int_minus field_simps)
  have b': "\<bar>val (offset rand_max r') - ?c * (- 1 + 2 * ?x')\<bar> \<le> 1 / 9223372036854775808"
    using offset_bounds(3) [OF assms(1) r' assms(5)] by (simp add: power_int_minus field_simps)
  have "1 \<le> real_of_int (r' - r)" using assms(4) by simp
  then have "1 / real_of_int rand_max \<le> real_of_int (r' - r) / real_of_int rand_max"
    using assms(1) by (simp add: divide_right_mono)
  moreover have "1 / 2147483647 \<le> 1 / real_of_int rand_max"
    using assms(1,2) by (simp add: frac_le)
  moreover have "real_of_int (r' - r) / real_of_int rand_max = ?x' - ?x"
    by (simp add: diff_divide_distrib)
  ultimately have g: "1 / 2147483647 \<le> ?x' - ?x" by linarith
  have "?c * (- 1 + 2 * ?x') - ?c * (- 1 + 2 * ?x) = 2 * ?c * (?x' - ?x)"
    by (rule affine_diff)
  moreover have "2 * ?c * (1 / 2147483647) \<le> 2 * ?c * (?x' - ?x)"
    using g by (intro mult_left_mono) simp_all
  moreover have "2 / 9223372036854775808 < 2 * ?c * (1 / 2147483647)"
    by simp
  ultimately have "2 / 9223372036854775808 < ?c * (- 1 + 2 * ?x') - ?c * (- 1 + 2 * ?x)"
    by linarith
  with b b' show ?thesis by linarith
qed

lemma round64_literal_val:
  "round64 (7378697629483821 / 2 ^ 66) = Fin (7378697629483821 / 2 ^ 66)"
  "round64 (- (7378697629483821 / 2 ^ 66)) = Fin (- (7378697629483821 / 2 ^ 66))"
  using round64_dyadic [of 7378697629483821 "- 66"] round64_dyadic [of "- 7378697629483821" "- 66"]
  by (simp_all add: power_int_minus field_simps)

lemma round64_literal_frac:
  "round64 (1 / 10000) = Fin (7378697629483821 / 73786976294838206464)"
  using round64_literal by simp

lemma unit_draw_0:
  assumes "0 < rand_max"
  shows "unit_draw rand_max 0 = Fin 0"
  using assms by (simp add: unit_draw_def fdiv_def is_zero_def is_inf_def zero_of_def)

lemma unit_draw_max:
  assumes "0 < rand_max"
  shows "unit_draw rand_max rand_max = Fin 1"
  using assms by (simp add: unit_draw_def fdiv_def is_zero_def is_inf_def)

lemma offset_0:
  assumes "0 < rand_max"
  shows "offset rand_max 0 = fneg (round64 0.0001)"
  unfolding offset_def unit_draw_0 [OF assms] round64_literal
  using round64_literal_val(2)
  by (simp add: fmul_def fadd_def is_zero_def is_inf_def zero_of_def)

lemma offset_max:
  assumes "0 < rand_max"
  shows "offset rand_max rand_max = round64 0.0001"
  unfolding offset_def unit_draw_max [OF assms] round64_literal
  using round64_literal_val(1)
  by (simp add: fmul_def fadd_def is_zero_def is_inf_def zero_of_def)

lemma literal_above: "(1 :: real) / 10000 < 7378697629483821 / 2 ^ 66"
  by simp

lemma fadd_absorbed:
  assumes "is_finite d" "\<bar>val d\<bar> \<le> 7378697629483821 / 2 ^ 66"
  shows "fadd (Fin 10000000000000) d = Fin 10000000000000"
proof -
  define v where "v = val d"
  have v: "\<bar>v\<bar> \<le> 7378697629483821 / 2 ^ 66" using assms(2) by (simp add: v_def)
  then have v': "\<bar>v\<bar> \<le> 1 / 2048" by simp
  have "fadd (Fin 10000000000000) d = round64 (10000000000000 + v)"
    using assms(1) by (cases d) (simp_all add: fadd_def is_finite_def is_inf_def v_def)
  also have "\<dots> = Fin (of_int 5120000000000000 * 2 powi (43 - 52))"
  proof (rule round64_near(1))
    show "2 powi 43 \<le> 10000000000000 + v" using v' by (simp add: abs_le_iff)
    show "10000000000000 + v < 2 powi (43 + 1)" using v' by (simp add: abs_le_iff)
    show "- 1022 \<le> (43 :: int)" by simp
    have "(10000000000000 + v) / 2 powi (43 - 52) - real_of_int 5120000000000000 = 512 * v"
      by (simp add: power_int_minus field_simps)
    moreover have "\<bar>512 * v\<bar> < 1 / 2" using v' by (simp add: abs_mult)
    ultimately show "\<bar>(10000000000000 + v) / 2 powi (43 - 52) - real_of_int 5120000000000000\<bar> < 1 / 2"
      by simp
    show "real_of_int 5120000000000000 * 2 powi (43 - 52) < 2 ^ 1024"
    proof -
      have "real_of_int 5120000000000000 * 2 powi (43 - 52) = 2 ^ 0 * 10000000000000"
        by (simp add: power_int_minus)
      also have "\<dots> < 2 ^ 0 * (2 :: real) ^ 1024" 
        by (intro mult_strict_left_mono) (simp_all add: )
      finally show ?thesis by simp
    qed
  qed
  also have "\<dots> = Fin 10000000000000" by (simp add: power_int_minus)
  finally show ?thesis .
qed

lemma try_round_a: "round64 (73779597597208722643 / 73786976294838206464) = Fin (4503149267407759 / 4503599627370496)"
  using round64_near(1) [of "-1" "73779597597208722643 / 73786976294838206464" 9006298534815518] by (simp add: power_int_minus)

lemma try_round_b: "round64 (147581331287305896749 / 73786976294838206464) = Fin (4503824807351865 / 2251799813685248)"
  using round64_near(1) [of "1" "147581331287305896749 / 73786976294838206464" 4503824807351865] by (simp add: power_int_minus)

lemma try_round_c: "round64 (73794354992467690285 / 73786976294838206464) = Fin (4504049987333233 / 4503599627370496)"
  using round64_near(1) [of "0" "73794354992467690285 / 73786976294838206464" 4504049987333233] by (simp add: power_int_minus)

lemma try_round_d: "round64 (147566573892046929107 / 73786976294838206464) = Fin (9006748894778255 / 4503599627370496)"
  using round64_near(1) [of "0" "147566573892046929107 / 73786976294838206464" 9006748894778255] by (simp add: power_int_minus)

lemma try_sums:
  "fadd (Fin 1) (fneg (round64 0.0001)) = Fin (4503149267407759 / 4503599627370496)"
  "fadd (Fin 2) (round64 0.0001) = Fin (4503824807351865 / 2251799813685248)"
  "fadd (Fin 1) (round64 0.0001) = Fin (4504049987333233 / 4503599627370496)"
  "fadd (Fin 2) (fneg (round64 0.0001)) = Fin (9006748894778255 / 4503599627370496)"
proof -
  have a: "(1 :: real) + - (7378697629483821 / 2 ^ 66) =
      73779597597208722643 / 73786976294838206464"
    by (simp add: field_simps)
  have b: "(2 :: real) + 7378697629483821 / 2 ^ 66 =
      147581331287305896749 / 73786976294838206464"
    by (simp add: field_simps)
  have c: "(1 :: real) + 7378697629483821 / 2 ^ 66 =
      73794354992467690285 / 73786976294838206464"
    by (simp add: field_simps)
  have d: "(2 :: real) + - (7378697629483821 / 2 ^ 66) =
      147566573892046929107 / 73786976294838206464"
    by (simp add: field_simps)
  have n: "fneg (Fin (7378697629483821 / 2 ^ 66)) = Fin (- (7378697629483821 / 2 ^ 66))"
    by simp
  show "fadd (Fin 1) (fneg (round64 0.0001)) = Fin (4503149267407759 / 4503599627370496)"
    unfolding round64_literal n fadd_Fin a by (rule try_round_a)
  show "fadd (Fin 2) (round64 0.0001) = Fin (4503824807351865 / 2251799813685248)"
    unfolding round64_literal fadd_Fin b by (rule try_round_b)
  show "fadd (Fin 1) (round64 0.0001) = Fin (4504049987333233 / 4503599627370496)"
    unfolding round64_literal fadd_Fin c by (rule try_round_c)
  show "fadd (Fin 2) (fneg (round64 0.0001)) = Fin (9006748894778255 / 4503599627370496)"
    unfolding round64_literal n fadd_Fin d by (rule try_round_d)
qed

subsection \<open>Facts about the retry loop\<close>

lemma perturb_prefix:
  assumes "n \<le> length p" "length pt = length p"
  shows "fold (\<lambda>idim (p_try, k).
             (p_try[idim := fadd (p ! idim) (offset rand_max (rs k))], Suc k))
          [0..<n] (pt, k0) =
         (map (\<lambda>i. if i < n then fadd (p ! i) (offset rand_max (rs (k0 + i)))
                    else pt ! i) [0..<length p], k0 + n)"
  using assms
proof (induction n)
  case 0
  then show ?case using map_nth [of pt] by simp
next
  case (Suc n)
  then have "n < length p" by simp
  moreover have "(map f [0..<length p])[n := f' n] =
      map (\<lambda>i. if i = n then f' n else f i) [0..<length p]" for f f' :: "nat \<Rightarrow> double"
    by (rule nth_equalityI) (auto simp: nth_list_update)
  ultimately show ?case using Suc
    by (auto simp: less_Suc_eq intro!: nth_equalityI)
qed

lemma perturb_eq:
  assumes "length pt = length p"
  shows "perturb rand_max rs p (pt, k) = (perturbed rand_max rs p k, k + length p)"
  unfolding perturb_def perturbed_def
  using perturb_prefix [OF le_refl assms] by simp

lemma try_loop_success:
  assumes "transform (p_try s) = Some u"
  shows "try_loop transform rand_max rs p s =
           (True, s\<lparr>p_unit := u, queried := queried s @ [p_try s]\<rparr>)"
  using assms by (subst try_loop.simps) simp

lemma try_loop_giveup:
  assumes "transform (p_try s) = None" "20 \<le> count_try s" "length (p_try s) = length p"
  shows "try_loop transform rand_max rs p s = (False, next_try rand_max rs p s)"
  using assms by (subst try_loop.simps) (simp add: perturb_eq next_try_def)

lemma try_loop_retry:
  assumes "transform (p_try s) = None" "count_try s < 20" "length (p_try s) = length p"
  shows "try_loop transform rand_max rs p s =
           try_loop transform rand_max rs p (next_try rand_max rs p s)"
  using assms by (subst try_loop.simps) (simp add: perturb_eq next_try_def)

lemma length_perturbed: "length (perturbed rand_max rs p k) = length p"
  by (simp add: perturbed_def)

lemma trace_from_0: "trace_from rand_max rs p q k 0 = [q]"
  by (simp add: trace_from_def)

lemma trace_from_Suc:
  "trace_from rand_max rs p q k (Suc m) =
     q # trace_from rand_max rs p (perturbed rand_max rs p k) (k + length p) m"
proof -
  have "[0..<Suc m] = 0 # map Suc [0..<m]"
    by (simp add: upt_conv_Cons map_Suc_upt del: upt_Suc)
  then have "map (\<lambda>j. perturbed rand_max rs p (k + j * length p)) [0..<Suc m] =
        perturbed rand_max rs p k #
        map (\<lambda>j. perturbed rand_max rs p (k + length p + j * length p)) [0..<m]"
    by (simp add: comp_def add.assoc del: upt_Suc)
  then show ?thesis
    unfolding trace_from_def by simp
qed

lemma try_loop_trace:
  assumes "length (p_try s) = length p" "count_try s = 20 - int b"
  shows "\<exists>m\<le>b.
           queried (snd (try_loop transform rand_max rs p s)) =
             queried s @ trace_from rand_max rs p (p_try s) (rand_calls s) m \<and>
           (\<forall>q\<in>set (butlast (trace_from rand_max rs p (p_try s) (rand_calls s) m)).
               transform q = None) \<and>
           (fst (try_loop transform rand_max rs p s) \<longrightarrow>
              transform (last (trace_from rand_max rs p (p_try s) (rand_calls s) m)) =
                Some (p_unit (snd (try_loop transform rand_max rs p s)))) \<and>
           (\<not> fst (try_loop transform rand_max rs p s) \<longrightarrow>
              transform (last (trace_from rand_max rs p (p_try s) (rand_calls s) m)) = None \<and>
              m = b \<and> p_unit (snd (try_loop transform rand_max rs p s)) = p_unit s)"
  using assms
proof (induction b arbitrary: s)
  case 0
  show ?case
  proof (cases "transform (p_try s)")
    case None
    with 0 have "try_loop transform rand_max rs p s = (False, next_try rand_max rs p s)"
      by (simp add: try_loop_giveup)
    with None show ?thesis
      by (simp add: trace_from_0 next_try_def)
  next
    case (Some u)
    then show ?thesis
      by (simp add: try_loop_success trace_from_0)
  qed
next
  case (Suc b)
  show ?case
  proof (cases "transform (p_try s)")
    case (Some u)
    then have "try_loop transform rand_max rs p s =
        (True, s\<lparr>p_unit := u, queried := queried s @ [p_try s]\<rparr>)"
      by (rule try_loop_success)
    with Some show ?thesis
      by (intro exI [of _ 0]) (simp add: trace_from_0)
  next
    case None
    let ?s' = "next_try rand_max rs p s"
    let ?r = "try_loop transform rand_max rs p s"
    from Suc.prems None have step: "?r = try_loop transform rand_max rs p ?s'"
      by (simp add: try_loop_retry)
    have len': "length (p_try ?s') = length p"
      by (simp add: next_try_def length_perturbed)
    have cnt': "count_try ?s' = 20 - int b"
      using Suc.prems by (simp add: next_try_def)
    from Suc.IH [OF len' cnt'] obtain m where m: "m \<le> b"
      and q: "queried (snd ?r) = queried ?s' @ trace_from rand_max rs p (p_try ?s') (rand_calls ?s') m"
      and f: "\<forall>q\<in>set (butlast (trace_from rand_max rs p (p_try ?s') (rand_calls ?s') m)).
               transform q = None"
      and o1: "fst ?r \<longrightarrow>
               transform (last (trace_from rand_max rs p (p_try ?s') (rand_calls ?s') m)) =
                   Some (p_unit (snd ?r))"
      and o2: "\<not> fst ?r \<longrightarrow>
               transform (last (trace_from rand_max rs p (p_try ?s') (rand_calls ?s') m)) = None \<and>
                 m = b \<and> p_unit (snd ?r) = p_unit ?s'"
      unfolding step [symmetric] by blast
    have t: "trace_from rand_max rs p (p_try s) (rand_calls s) (Suc m) =
             p_try s # trace_from rand_max rs p (p_try ?s') (rand_calls ?s') m"
      by (simp add: trace_from_Suc next_try_def)
    have ne: "trace_from rand_max rs p (p_try ?s') (rand_calls ?s') m \<noteq> []"
      by (simp add: trace_from_def)
    have u: "p_unit ?s' = p_unit s" by (simp add: next_try_def)
    have 1: "queried (snd ?r) =
             queried s @ trace_from rand_max rs p (p_try s) (rand_calls s) (Suc m)"
      unfolding t q by (simp add: next_try_def)
    have 2: "\<forall>q\<in>set (butlast (trace_from rand_max rs p (p_try s) (rand_calls s) (Suc m))).
               transform q = None"
      unfolding t using f None ne by simp
    have 3: "fst ?r \<longrightarrow>
             transform (last (trace_from rand_max rs p (p_try s) (rand_calls s) (Suc m))) =
                   Some (p_unit (snd ?r))"
      unfolding t last_ConsR [OF ne] by (rule o1)
    have 4: "\<not> fst ?r \<longrightarrow>
             transform (last (trace_from rand_max rs p (p_try s) (rand_calls s) (Suc m))) = None \<and>
                 Suc m = Suc b \<and> p_unit (snd ?r) = p_unit s"
      unfolding t last_ConsR [OF ne] using o2 u by auto
    from m have "Suc m \<le> Suc b" by simp
    with 1 2 3 4 show ?thesis by blast
  qed
qed

lemma try_mapping_trace:
  "\<exists>m\<le>20.
     queried (snd (try_mapping transform rand_max rs k0 p u0)) = trace_from rand_max rs p p k0 m \<and>
     (\<forall>q\<in>set (butlast (trace_from rand_max rs p p k0 m)). transform q = None) \<and>
     (fst (try_mapping transform rand_max rs k0 p u0) \<longrightarrow>
        transform (last (trace_from rand_max rs p p k0 m)) =
          Some (p_unit (snd (try_mapping transform rand_max rs k0 p u0)))) \<and>
     (\<not> fst (try_mapping transform rand_max rs k0 p u0) \<longrightarrow>
        transform (last (trace_from rand_max rs p p k0 m)) = None \<and> m = 20 \<and>
        p_unit (snd (try_mapping transform rand_max rs k0 p u0)) = u0)"
  using try_loop_trace [of "\<lparr>p_try = p, p_unit = u0, count_try = 0, rand_calls = k0, queried = []\<rparr>"
      p 20 transform rand_max rs]
  unfolding try_mapping_def by simp

lemma length_trace_from: "length (trace_from rand_max rs p q k m) = Suc m"
  by (simp add: trace_from_def)

lemma trace_from_nth_0: "trace_from rand_max rs p q k m ! 0 = q"
  by (simp add: trace_from_def)

lemma trace_from_nth_Suc:
  assumes "n < m"
  shows "trace_from rand_max rs p q k m ! Suc n = perturbed rand_max rs p (k + n * length p)"
  using assms by (simp add: trace_from_def)

lemma set_butlast_last:
  assumes "xs \<noteq> []"
  shows "set xs = set (butlast xs) \<union> {last xs}"
  using assms by (metis append_butlast_last_id set_append list.simps(15) empty_set Un_commute insert_is_Un)

lemma try_mapping_all_fail:
  assumes "\<forall>q. transform q = None"
  shows "\<not> fst (try_mapping transform rand_max rs k0 p u0) \<and>
         queried (snd (try_mapping transform rand_max rs k0 p u0)) = trace_from rand_max rs p p k0 20"
proof -
  from try_mapping_trace [of transform rand_max rs k0 p u0] assms
  show ?thesis by auto
qed

lemma try_mapping_first_success:
  assumes "transform p = Some u"
  shows "try_mapping transform rand_max rs k0 p u0 =
           (True, \<lparr>p_try = p, p_unit = u, count_try = 0, rand_calls = k0, queried = [p]\<rparr>)"
  using assms unfolding try_mapping_def by (simp add: try_loop_success)

lemma draw_index_inj:
  fixes d :: nat
  assumes "i < d" "i' < d" "k + n * d + i = k + n' * d + i'"
  shows "n = n' \<and> i = i'"
proof -
  from assms(3) have e: "n * d + i = n' * d + i'" by simp
  then have "(n * d + i) div d = (n' * d + i') div d" by simp
  with assms(1,2) have "n = n'" by simp
  with e show ?thesis by simp
qed

lemma perturbed_absorbed:
  assumes "\<forall>k. 0 \<le> rs k \<and> rs k \<le> rand_max" "0 < rand_max"
  shows "perturbed rand_max rs [Fin 10000000000000, Fin 10000000000000] k =
           [Fin 10000000000000, Fin 10000000000000]"
proof -
  have "fadd (Fin 10000000000000) (offset rand_max (rs j)) = Fin 10000000000000" for j
    using assms offset_bounds(1,2) [of rand_max "rs j"] by (intro fadd_absorbed) simp_all
  then show ?thesis
    by (simp add: perturbed_def upt_conv_Cons)
qed

text \<open>
  Claim C1. \<^verbatim>\<open>try_mapping\<close> always returns, after at least one and at most 21 calls
  of the inversion. When every call of the inversion fails it makes exactly 21 of
  them, the first on the point \<open>p\<close> itself and the 20 others on perturbed points,
  and returns \<^verbatim>\<open>false\<close>.
\<close>

theorem try_mapping_bounded:
  "1 \<le> length (queried (snd (try_mapping transform rand_max rs k0 p u0))) \<and>
   length (queried (snd (try_mapping transform rand_max rs k0 p u0))) \<le> 21 \<and>
   ((\<forall>q. transform q = None) \<longrightarrow>
      \<not> fst (try_mapping transform rand_max rs k0 p u0) \<and>
      length (queried (snd (try_mapping transform rand_max rs k0 p u0))) = 21 \<and>
      queried (snd (try_mapping transform rand_max rs k0 p u0)) ! 0 = p \<and>
      (\<forall>n<20. queried (snd (try_mapping transform rand_max rs k0 p u0)) ! Suc n =
                perturbed rand_max rs p (k0 + n * length p)))"
proof -
  let ?r = "try_mapping transform rand_max rs k0 p u0"
  from try_mapping_trace [of transform rand_max rs k0 p u0]
  obtain m where "m \<le> 20" "queried (snd ?r) = trace_from rand_max rs p p k0 m"
    by blast
  then have 1: "1 \<le> length (queried (snd ?r)) \<and> length (queried (snd ?r)) \<le> 21"
    by (simp add: length_trace_from)
  have 2: "\<not> fst ?r \<and> length (queried (snd ?r)) = 21 \<and> queried (snd ?r) ! 0 = p \<and>
      (\<forall>n<20. queried (snd ?r) ! Suc n = perturbed rand_max rs p (k0 + n * length p))"
    if "\<forall>q. transform q = None"
    using try_mapping_all_fail [OF that, of rand_max rs k0 p u0]
    by (simp add: length_trace_from trace_from_nth_0 trace_from_nth_Suc)
  from 1 2 show ?thesis by blast
qed

theorem try_mapping_bounded_witness:
  "(\<forall>q. never_inverts q = None) \<and>
   \<not> fst (try_mapping never_inverts 32767 rand_always_max 0 [Fin 1, Fin 2] [Fin 0, Fin 0]) \<and>
   length (queried (snd (try_mapping never_inverts 32767 rand_always_max 0 [Fin 1, Fin 2]
     [Fin 0, Fin 0]))) = 21 \<and>
   queried (snd (try_mapping never_inverts 32767 rand_always_max 0 [Fin 1, Fin 2] [Fin 0, Fin 0])) ! 0
     = [Fin 1, Fin 2]"
proof -
  have h: "\<forall>q. never_inverts q = None" by (simp add: never_inverts_def)
  from try_mapping_bounded [of never_inverts 32767 rand_always_max 0 "[Fin 1, Fin 2]"
      "[Fin 0, Fin 0]"] h
  show ?thesis by blast
qed

text \<open>
  Claim C2, as the code has it. The first call of the inversion is on \<open>p\<close>. Every
  later call is on a point computed from \<open>p\<close>, not from the point tried before:
  its coordinate \<open>i\<close> is the sum of doubles \<open>p[i] + o\<close>, where \<open>o\<close> is the double
  \<^verbatim>\<open>0.0001*(-1.0 + 2.0*u)\<close> and \<open>u\<close> the double \<^verbatim>\<open>double(rand())/double(RAND_MAX)\<close>.
  Every axis of every retry draws from a call of \<^verbatim>\<open>rand\<close> of its own: retry \<open>n\<close>,
  axis \<open>i\<close> uses call number \<open>k0 + n * dim + i\<close>, and no two of these coincide, so
  that the offsets are as independent as the values of \<^verbatim>\<open>rand\<close> are.

  For a value \<open>r\<close> of \<^verbatim>\<open>rand\<close>, from 0 to \<^verbatim>\<open>RAND_MAX\<close>, both included, \<open>u\<close> lies between
  0 and 1, both included, within \<open>2\<^sup>-\<^sup>5\<^sup>3\<close> of \<open>r / RAND_MAX\<close>, with \<open>u = 0\<close> for \<open>r = 0\<close>
  and \<open>u = 1\<close> for \<open>r = RAND_MAX\<close>. The offset lies between \<open>-c\<close> and \<open>c\<close>, where \<open>c\<close>
  is the double of the literal \<^verbatim>\<open>0.0001\<close> (a little above \<open>1/10000\<close>), with \<open>-c\<close> for
  \<open>r = 0\<close> and \<open>c\<close> for \<open>r = RAND_MAX\<close>; it is within \<open>2\<^sup>-\<^sup>6\<^sup>3\<close> of the point
  \<open>c * (-1 + 2 r / RAND_MAX)\<close> of the evenly spaced grid, and, for a \<^verbatim>\<open>RAND_MAX\<close> of at
  most \<open>2\<^sup>3\<^sup>1 - 1\<close>, it is strictly increasing in \<open>r\<close>: different values of \<^verbatim>\<open>rand\<close>
  give different offsets, so that the offset is distributed over the grid as
  \<^verbatim>\<open>rand\<close> is over its values, uniformly when \<^verbatim>\<open>rand\<close> is uniform.
\<close>

theorem try_mapping_query_points:
  "queried (snd (try_mapping transform rand_max rs k0 p u0)) ! 0 = p \<and>
   (\<forall>n. Suc n < length (queried (snd (try_mapping transform rand_max rs k0 p u0))) \<longrightarrow>
      queried (snd (try_mapping transform rand_max rs k0 p u0)) ! Suc n =
        map (\<lambda>i. fadd (p ! i) (offset rand_max (rs (k0 + n * length p + i)))) [0..<length p]) \<and>
   offset rand_max r =
     fmul (round64 0.0001) (fadd (Fin (- 1)) (fmul (Fin 2)
       (fdiv (Fin (of_int r)) (Fin (of_int rand_max))))) \<and>
   round64 0.0001 = Fin (7378697629483821 / 2 ^ 66) \<and>
   1 / 10000 < val (round64 0.0001) \<and>
   (\<forall>n n' i i'. i < length p \<and> i' < length p \<and>
       k0 + n * length p + i = k0 + n' * length p + i' \<longrightarrow> n = n' \<and> i = i') \<and>
   (0 < rand_max \<and> 0 \<le> r \<and> r \<le> rand_max \<longrightarrow>
      is_finite (unit_draw rand_max r) \<and>
      0 \<le> val (unit_draw rand_max r) \<and> val (unit_draw rand_max r) \<le> 1 \<and>
      \<bar>val (unit_draw rand_max r) - of_int r / of_int rand_max\<bar> \<le> 2 powi (- 53) \<and>
      unit_draw rand_max 0 = Fin 0 \<and> unit_draw rand_max rand_max = Fin 1 \<and>
      is_finite (offset rand_max r) \<and>
      \<bar>val (offset rand_max r)\<bar> \<le> val (round64 0.0001) \<and>
      \<bar>val (offset rand_max r) -
        val (round64 0.0001) * (- 1 + 2 * (of_int r / of_int rand_max))\<bar> \<le> 2 powi (- 63) \<and>
      offset rand_max 0 = fneg (round64 0.0001) \<and>
      offset rand_max rand_max = round64 0.0001 \<and>
      (\<forall>r'. rand_max \<le> 2147483647 \<and> r < r' \<and> r' \<le> rand_max \<longrightarrow>
         val (offset rand_max r) < val (offset rand_max r')))"
proof -
  let ?r = "try_mapping transform rand_max rs k0 p u0"
  from try_mapping_trace [of transform rand_max rs k0 p u0]
  obtain m where q: "queried (snd ?r) = trace_from rand_max rs p p k0 m"
    by blast
  have 1: "queried (snd ?r) ! 0 = p"
    unfolding q by (rule trace_from_nth_0)
  have nth: "queried (snd ?r) ! Suc n = perturbed rand_max rs p (k0 + n * length p)"
    if "Suc n < length (queried (snd ?r))" for n
    using that unfolding q by (simp add: length_trace_from trace_from_nth_Suc)
  have 2: "queried (snd ?r) ! Suc n =
        map (\<lambda>i. fadd (p ! i) (offset rand_max (rs (k0 + n * length p + i)))) [0..<length p]"
    if "Suc n < length (queried (snd ?r))" for n
    using nth [OF that] by (simp add: perturbed_def add.assoc)
  have 3: "offset rand_max r =
     fmul (round64 0.0001) (fadd (Fin (- 1)) (fmul (Fin 2)
       (fdiv (Fin (of_int r)) (Fin (of_int rand_max)))))"
    by (simp add: offset_def unit_draw_def)
  have 4: "1 / 10000 < val (round64 0.0001)"
    unfolding round64_literal using literal_above by simp
  have 5: "n = n' \<and> i = i'"
    if "i < length p \<and> i' < length p \<and> k0 + n * length p + i = k0 + n' * length p + i'"
    for n n' i i'
    using that draw_index_inj [of i "length p" i' k0 n n'] by blast
  have 6: "is_finite (unit_draw rand_max r) \<and>
      0 \<le> val (unit_draw rand_max r) \<and> val (unit_draw rand_max r) \<le> 1 \<and>
      \<bar>val (unit_draw rand_max r) - of_int r / of_int rand_max\<bar> \<le> 2 powi (- 53) \<and>
      unit_draw rand_max 0 = Fin 0 \<and> unit_draw rand_max rand_max = Fin 1"
    if "0 < rand_max \<and> 0 \<le> r \<and> r \<le> rand_max"
    using that unit_draw_bounds [of rand_max r] unit_draw_0 [of rand_max]
      unit_draw_max [of rand_max]
    by simp
  have 7: "is_finite (offset rand_max r) \<and>
      \<bar>val (offset rand_max r)\<bar> \<le> val (round64 0.0001) \<and>
      \<bar>val (offset rand_max r) -
        val (round64 0.0001) * (- 1 + 2 * (of_int r / of_int rand_max))\<bar> \<le> 2 powi (- 63) \<and>
      offset rand_max 0 = fneg (round64 0.0001) \<and>
      offset rand_max rand_max = round64 0.0001"
    if "0 < rand_max \<and> 0 \<le> r \<and> r \<le> rand_max"
  proof -
    from that have h: "0 < rand_max" "0 \<le> r" "r \<le> rand_max" by simp_all
    have v: "val (round64 0.0001) = 7378697629483821 / 2 ^ 66"
      unfolding round64_literal by simp
    show ?thesis
      unfolding v using offset_bounds [OF h] offset_0 [OF h(1)] offset_max [OF h(1)] by blast
  qed
  have 8: "val (offset rand_max r) < val (offset rand_max r')"
    if "0 < rand_max \<and> 0 \<le> r \<and> r \<le> rand_max"
      "rand_max \<le> 2147483647 \<and> r < r' \<and> r' \<le> rand_max" for r'
    using that offset_strict_mono [of rand_max r r'] by simp
  from 1 2 3 4 5 6 7 8 round64_literal show ?thesis by blast
qed

theorem try_mapping_query_points_witness:
  "queried (snd (try_mapping never_inverts 32767 rand_zero_or_max 0 [Fin 1, Fin 2]
     [Fin 0, Fin 0])) ! 0 = [Fin 1, Fin 2] \<and>
   Suc 1 < length (queried (snd (try_mapping never_inverts 32767 rand_zero_or_max 0 [Fin 1, Fin 2]
     [Fin 0, Fin 0]))) \<and>
   queried (snd (try_mapping never_inverts 32767 rand_zero_or_max 0 [Fin 1, Fin 2]
     [Fin 0, Fin 0])) ! Suc 0 =
     [Fin (4503149267407759 / 4503599627370496), Fin (4503824807351865 / 2251799813685248)] \<and>
   queried (snd (try_mapping never_inverts 32767 rand_zero_or_max 0 [Fin 1, Fin 2]
     [Fin 0, Fin 0])) ! Suc 1 =
     [Fin (4504049987333233 / 4503599627370496), Fin (9006748894778255 / 4503599627370496)] \<and>
   (0 :: int) < 32767 \<and> (32767 :: int) \<le> 2147483647 \<and>
   offset 32767 0 = Fin (- (7378697629483821 / 2 ^ 66)) \<and>
   offset 32767 32767 = Fin (7378697629483821 / 2 ^ 66) \<and>
   val (offset 32767 0) < val (offset 32767 32767)"
proof -
  let ?r = "try_mapping never_inverts 32767 rand_zero_or_max 0 [Fin 1, Fin 2] [Fin 0, Fin 0]"
  note t = try_mapping_query_points [of never_inverts 32767 rand_zero_or_max 0 "[Fin 1, Fin 2]"
      "[Fin 0, Fin 0]" 0]
  have "queried (snd ?r) = trace_from 32767 rand_zero_or_max [Fin 1, Fin 2] [Fin 1, Fin 2] 0 20"
    using try_mapping_all_fail [of never_inverts] by (simp add: never_inverts_def)
  then have l: "Suc 0 < length (queried (snd ?r))" "Suc 1 < length (queried (snd ?r))"
    by (simp_all add: length_trace_from)
  have r: "(0 :: int) < 32767 \<and> (0 :: int) \<le> 0 \<and> (0 :: int) \<le> 32767" by simp
  from t have 0: "queried (snd ?r) ! 0 = [Fin 1, Fin 2]" by blast
  from t r have lo: "offset 32767 0 = fneg (round64 0.0001)"
    and hi: "offset 32767 32767 = round64 0.0001"
    by blast+
  from t have c: "round64 0.0001 = Fin (7378697629483821 / 2 ^ 66)" by blast
  from t l(1) have "queried (snd ?r) ! Suc 0 =
      map (\<lambda>i. fadd ([Fin 1, Fin 2] ! i)
                  (offset 32767 (rand_zero_or_max (0 + 0 * length [Fin 1, Fin 2] + i))))
          [0..<length [Fin 1, Fin 2]]"
    by blast
  also have "\<dots> = [fadd (Fin 1) (offset 32767 0), fadd (Fin 2) (offset 32767 32767)]"
    by (simp add: rand_zero_or_max_def upt_conv_Cons)
  also have "\<dots> =
      [Fin (4503149267407759 / 4503599627370496), Fin (4503824807351865 / 2251799813685248)]"
    unfolding lo hi try_sums ..
  finally have 1: "queried (snd ?r) ! Suc 0 =
      [Fin (4503149267407759 / 4503599627370496), Fin (4503824807351865 / 2251799813685248)]" .
  from t l(2) have "queried (snd ?r) ! Suc 1 =
      map (\<lambda>i. fadd ([Fin 1, Fin 2] ! i)
                  (offset 32767 (rand_zero_or_max (0 + 1 * length [Fin 1, Fin 2] + i))))
          [0..<length [Fin 1, Fin 2]]"
    by blast
  also have "\<dots> = [fadd (Fin 1) (offset 32767 32767), fadd (Fin 2) (offset 32767 0)]"
    by (simp add: rand_zero_or_max_def upt_conv_Cons)
  also have "\<dots> =
      [Fin (4504049987333233 / 4503599627370496), Fin (9006748894778255 / 4503599627370496)]"
    unfolding lo hi try_sums ..
  finally have 2: "queried (snd ?r) ! Suc 1 =
      [Fin (4504049987333233 / 4503599627370496), Fin (9006748894778255 / 4503599627370496)]" .
  have "(32767 :: int) \<le> 2147483647 \<and> (0 :: int) < 32767 \<and> (32767 :: int) \<le> 32767" by simp
  with t r have 3: "val (offset 32767 0) < val (offset 32767 32767)" by blast
  have 4: "offset 32767 0 = Fin (- (7378697629483821 / 2 ^ 66))"
    "offset 32767 32767 = Fin (7378697629483821 / 2 ^ 66)"
    unfolding lo hi c by simp_all
  from 0 l(2) 1 2 3 4 show ?thesis by simp
qed

text \<open>
  The claim as stated fails in two places. It places \<open>u\<close> in the interval from 0
  to 1 without 1: when \<^verbatim>\<open>rand\<close> returns \<^verbatim>\<open>RAND_MAX\<close> (here 32767) the quotient is 1,
  and the first retry of the point \<open>(0, 0)\<close> is on \<open>(c, c)\<close>, which no \<open>u\<close> below 1
  gives. And it takes the sum \<open>p[i] + o\<close> for exact: for the point
  \<open>(10\<^sup>1\<^sup>3, 10\<^sup>1\<^sup>3)\<close> the offsets are \<open>-c\<close> and \<open>c\<close> and the sums are \<open>10\<^sup>1\<^sup>3\<close>, so that
  every retry is on \<open>p\<close> itself; an inversion that fails at \<open>p\<close> alone makes
  \<^verbatim>\<open>try_mapping\<close> return \<^verbatim>\<open>false\<close> after 21 calls on \<open>p\<close>.
\<close>

theorem try_mapping_unit_interval_counterexample:
  "unit_draw 32767 (rand_always_max 0) = Fin 1 \<and>
   queried (snd (try_mapping never_inverts 32767 rand_always_max 0 [Fin 0, Fin 0]
     [Fin 0, Fin 0])) ! Suc 0 =
     [Fin (7378697629483821 / 2 ^ 66), Fin (7378697629483821 / 2 ^ 66)] \<and>
   \<not> (\<exists>u. 0 \<le> u \<and> u < 1 \<and>
          val (queried (snd (try_mapping never_inverts 32767 rand_always_max 0 [Fin 0, Fin 0]
            [Fin 0, Fin 0])) ! Suc 0 ! 0) = val ([Fin 0, Fin 0] ! 0) + 0.0001 * (- 1 + 2 * u)) \<and>
   offset 32767 (rand_zero_or_max 0) = Fin (- (7378697629483821 / 2 ^ 66)) \<and>
   offset 32767 (rand_zero_or_max 1) = Fin (7378697629483821 / 2 ^ 66) \<and>
   fails_only_at [Fin 10000000000000, Fin 10000000000000] [Fin 10000000000000, Fin 10000000000000]
     = None \<and>
   fails_only_at [Fin 10000000000000, Fin 10000000000000] [Fin 10000000000001, Fin 10000000000000]
     = Some [Fin 10000000000001, Fin 10000000000000] \<and>
   \<not> fst (try_mapping (fails_only_at [Fin 10000000000000, Fin 10000000000000]) 32767
            rand_zero_or_max 0 [Fin 10000000000000, Fin 10000000000000] [Fin 0, Fin 0]) \<and>
   queried (snd (try_mapping (fails_only_at [Fin 10000000000000, Fin 10000000000000]) 32767
            rand_zero_or_max 0 [Fin 10000000000000, Fin 10000000000000] [Fin 0, Fin 0])) =
     replicate 21 [Fin 10000000000000, Fin 10000000000000]"
proof -
  let ?c = "7378697629483821 / 2 ^ 66 :: real"
  let ?r = "try_mapping never_inverts 32767 rand_always_max 0 [Fin 0, Fin 0] [Fin 0, Fin 0]"
  let ?P = "[Fin 10000000000000, Fin 10000000000000]"
  let ?s = "try_mapping (fails_only_at ?P) 32767 rand_zero_or_max 0 ?P [Fin 0, Fin 0]"
  have 1: "unit_draw 32767 (rand_always_max 0) = Fin 1"
    using unit_draw_max [of 32767] by (simp add: rand_always_max_def)
  have hi: "offset 32767 32767 = Fin ?c" and lo: "offset 32767 0 = Fin (- ?c)"
    using offset_max [of 32767] offset_0 [of 32767] by (simp_all add: round64_literal_frac)
  have z: "fadd (Fin 0) (Fin ?c) = Fin ?c"
    unfolding fadd_Fin using round64_literal_val(1) by simp
  have "queried (snd ?r) = trace_from 32767 rand_always_max [Fin 0, Fin 0] [Fin 0, Fin 0] 0 20"
    using try_mapping_all_fail [of never_inverts] by (simp add: never_inverts_def)
  then have "queried (snd ?r) ! Suc 0 = perturbed 32767 rand_always_max [Fin 0, Fin 0] 0"
    by (simp add: trace_from_nth_Suc)
  also have "\<dots> = [fadd (Fin 0) (offset 32767 32767), fadd (Fin 0) (offset 32767 32767)]"
    by (simp add: perturbed_def rand_always_max_def upt_conv_Cons)
  also have "\<dots> = [Fin ?c, Fin ?c]"
    unfolding hi z ..
  finally have 2: "queried (snd ?r) ! Suc 0 = [Fin ?c, Fin ?c]" .
  have 3: "\<not> (\<exists>u. 0 \<le> u \<and> u < 1 \<and>
      val (queried (snd ?r) ! Suc 0 ! 0) = val ([Fin 0, Fin 0] ! 0) + 0.0001 * (- 1 + 2 * u))"
    unfolding 2 by auto
  have 4: "offset 32767 (rand_zero_or_max 0) = Fin (- ?c)"
    "offset 32767 (rand_zero_or_max 1) = Fin ?c"
    using hi lo by (simp_all add: rand_zero_or_max_def)
  have 5: "fails_only_at ?P ?P = None"
    "fails_only_at ?P [Fin 10000000000001, Fin 10000000000000] =
       Some [Fin 10000000000001, Fin 10000000000000]"
    by (simp_all add: fails_only_at_def)
  have rs: "\<forall>k. 0 \<le> rand_zero_or_max k \<and> rand_zero_or_max k \<le> 32767"
    by (simp add: rand_zero_or_max_def)
  have same: "perturbed 32767 rand_zero_or_max ?P k = ?P" for k
    using perturbed_absorbed [OF rs] by simp
  have tr: "trace_from 32767 rand_zero_or_max ?P ?P 0 m = replicate (Suc m) ?P" for m
    by (simp add: trace_from_def same map_replicate_const)
  from try_mapping_trace [of "fails_only_at ?P" 32767 rand_zero_or_max 0 ?P "[Fin 0, Fin 0]"]
  obtain m where m: "m \<le> 20"
    and q: "queried (snd ?s) = replicate (Suc m) ?P"
    and s: "fst ?s \<longrightarrow> fails_only_at ?P (last (replicate (Suc m) ?P)) = Some (p_unit (snd ?s))"
    and f: "\<not> fst ?s \<longrightarrow> m = 20"
    unfolding tr by blast
  have "last (replicate (Suc m) ?P) = ?P" by (simp del: replicate_Suc)
  with s 5(1) have 6: "\<not> fst ?s" by auto
  with f q have 7: "queried (snd ?s) = replicate 21 ?P" by simp
  from 1 2 3 4 5 6 7 show ?thesis by blast
qed

text \<open>
  Claim C3. When \<^verbatim>\<open>try_mapping\<close> returns \<^verbatim>\<open>false\<close>, it has made 21 calls of the
  inversion, every one of them failed, and \<^verbatim>\<open>p_unit\<close> has the value it had at
  entry. When it returns \<^verbatim>\<open>true\<close>, \<^verbatim>\<open>p_unit\<close> is the result of the inversion at
  the last point it was called on, and every earlier call failed.
\<close>

theorem try_mapping_outcome:
  "(\<not> fst (try_mapping transform rand_max rs k0 p u0) \<longrightarrow>
      p_unit (snd (try_mapping transform rand_max rs k0 p u0)) = u0 \<and>
      length (queried (snd (try_mapping transform rand_max rs k0 p u0))) = 21 \<and>
      (\<forall>q\<in>set (queried (snd (try_mapping transform rand_max rs k0 p u0))). transform q = None)) \<and>
   (fst (try_mapping transform rand_max rs k0 p u0) \<longrightarrow>
      transform (last (queried (snd (try_mapping transform rand_max rs k0 p u0)))) =
        Some (p_unit (snd (try_mapping transform rand_max rs k0 p u0))) \<and>
      (\<forall>q\<in>set (butlast (queried (snd (try_mapping transform rand_max rs k0 p u0)))).
          transform q = None))"
proof -
  let ?r = "try_mapping transform rand_max rs k0 p u0"
  from try_mapping_trace [of transform rand_max rs k0 p u0]
  obtain m where q: "queried (snd ?r) = trace_from rand_max rs p p k0 m"
    and f: "\<forall>q\<in>set (butlast (queried (snd ?r))). transform q = None"
    and s: "fst ?r \<longrightarrow> transform (last (queried (snd ?r))) = Some (p_unit (snd ?r))"
    and n: "\<not> fst ?r \<longrightarrow> transform (last (queried (snd ?r))) = None \<and> m = 20 \<and>
            p_unit (snd ?r) = u0"
    by auto
  have ne: "queried (snd ?r) \<noteq> []"
    unfolding q by (simp add: trace_from_def)
  have "p_unit (snd ?r) = u0 \<and> length (queried (snd ?r)) = 21 \<and>
        (\<forall>q\<in>set (queried (snd ?r)). transform q = None)" if "\<not> fst ?r"
  proof -
    from that n have l: "transform (last (queried (snd ?r))) = None" and m: "m = 20"
      and u: "p_unit (snd ?r) = u0"
      by simp_all
    from m have "length (queried (snd ?r)) = 21"
      unfolding q by (simp add: length_trace_from)
    moreover have "\<forall>q\<in>set (queried (snd ?r)). transform q = None"
      using f l set_butlast_last [OF ne] by auto
    ultimately show ?thesis using u by simp
  qed
  with f s show ?thesis by blast
qed

theorem try_mapping_outcome_witness:
  "\<not> fst (try_mapping never_inverts 32767 rand_always_max 0 [Fin 1, Fin 2] [Fin 7, Fin 7]) \<and>
   p_unit (snd (try_mapping never_inverts 32767 rand_always_max 0 [Fin 1, Fin 2] [Fin 7, Fin 7])) = [Fin 7, Fin 7] \<and>
   fst (try_mapping Some 32767 rand_always_max 0 [Fin 1, Fin 2] [Fin 7, Fin 7]) \<and>
   p_unit (snd (try_mapping Some 32767 rand_always_max 0 [Fin 1, Fin 2] [Fin 7, Fin 7])) = [Fin 1, Fin 2]"
proof -
  have a: "\<not> fst (try_mapping never_inverts 32767 rand_always_max 0 [Fin 1, Fin 2] [Fin 7, Fin 7])"
    using try_mapping_all_fail [of never_inverts] by (simp add: never_inverts_def)
  have b: "try_mapping Some 32767 rand_always_max 0 [Fin 1, Fin 2] [Fin 7, Fin 7] =
      (True, \<lparr>p_try = [Fin 1, Fin 2], p_unit = [Fin 1, Fin 2], count_try = 0, rand_calls = 0, queried = [[Fin 1, Fin 2]]\<rparr>)"
    by (simp add: try_mapping_first_success)
  from try_mapping_outcome [of never_inverts 32767 rand_always_max 0 "[Fin 1, Fin 2]" "[Fin 7, Fin 7]"] a
  have 1: "p_unit (snd (try_mapping never_inverts 32767 rand_always_max 0 [Fin 1, Fin 2] [Fin 7, Fin 7])) = [Fin 7, Fin 7]"
    by blast
  from b have c: "fst (try_mapping Some 32767 rand_always_max 0 [Fin 1, Fin 2] [Fin 7, Fin 7])" by simp
  from try_mapping_outcome [of Some 32767 rand_always_max 0 "[Fin 1, Fin 2]" "[Fin 7, Fin 7]"] c
  have "Some (last (queried (snd (try_mapping Some 32767 rand_always_max 0 [Fin 1, Fin 2] [Fin 7, Fin 7])))) =
        Some (p_unit (snd (try_mapping Some 32767 rand_always_max 0 [Fin 1, Fin 2] [Fin 7, Fin 7])))"
    by blast
  with b have 2: "p_unit (snd (try_mapping Some 32767 rand_always_max 0 [Fin 1, Fin 2] [Fin 7, Fin 7])) = [Fin 1, Fin 2]"
    by simp
  from a 1 c 2 show ?thesis by blast
qed

end
